theory Spec2Isabelle
  imports Main
begin

section \<open>Python values, dictionaries and the object store\<close>

text \<open>
  The anonymizer (\<^verbatim>\<open>anonymizer_module/opmon_anonymizer/anonymizer.py\<close>) works on
  Python dictionaries. A value is \<^verbatim>\<open>None\<close>, a bool, an int, a string or a reference
  to a dictionary object in the store; floats and lists are not modelled. A dictionary
  is an association list in insertion order, as Python keeps it: assigning to a key
  that is present replaces its value in place, assigning to a new key appends it.
\<close>

type_synonym addr = nat

datatype pyval = PNone | PBool bool | PInt int | PStr string | PRef addr

type_synonym pydict = "(string \<times> pyval) list"

type_synonym store = "pydict list"

datatype error = KeyError | TypeError | ValueError | InvalidRef | OtherError

text \<open>\<^verbatim>\<open>d.get(k)\<close> / \<^verbatim>\<open>k in d\<close>: the first entry for the key.\<close>

fun dict_get :: "('k \<times> 'v) list \<Rightarrow> 'k \<Rightarrow> 'v option" where
  "dict_get [] k = None"
| "dict_get ((k', v) # d) k = (if k' = k then Some v else dict_get d k)"

text \<open>\<^verbatim>\<open>d[k] = v\<close>.\<close>

fun dict_set :: "'k \<Rightarrow> 'v \<Rightarrow> ('k \<times> 'v) list \<Rightarrow> ('k \<times> 'v) list" where
  "dict_set k v [] = [(k, v)]"
| "dict_set k v ((k', v') # d) = (if k' = k then (k, v) # d else (k', v') # dict_set k v d)"

text \<open>
  The store is a list of dictionary objects; an address is an index, and a new object
  is appended. A Python reference is never dangling: \<open>InvalidRef\<close> is the model's
  answer on a store that is not well formed, and no Python exception.
\<close>

definition deref :: "store \<Rightarrow> addr \<Rightarrow> error + pydict" where
  "deref st a = (if a < length st then Inr (st ! a) else Inl InvalidRef)"

definition alloc :: "store \<Rightarrow> pydict \<Rightarrow> addr \<times> store" where
  "alloc st d = (length st, st @ [d])"

section \<open>The compiled rules and the anonymization job\<close>

text \<open>
  A compiled regular expression is used only through \<^verbatim>\<open>pattern.match(s)\<close>, whose
  result is tested for truth: a pattern is the predicate "matches at the start of
  \<open>s\<close>". Python's builtin \<^verbatim>\<open>str\<close> is a parameter \<open>str_of\<close> of the functions that
  call it.
\<close>

type_synonym pattern = "string \<Rightarrow> bool"

type_synonym conditions = "(string \<times> pattern) list"

record substitution_rule =
  conditions :: conditions
  substitutes :: "(string \<times> pyval) list"

text \<open>
  An entry of the field translations is a new name (a shared top-level field) or the
  table of one agent. The mask of an agent is a Python set; the list is the order in
  which the set is iterated.
\<close>

datatype tval = TName string | TTable "(string \<times> string) list"

type_synonym transformer = "pydict \<Rightarrow> error + pydict"

record 'w job =
  writer :: "'w \<Rightarrow> pydict list \<Rightarrow> error + 'w"
  hiding_rules :: "conditions list"
  substitution_rules :: "substitution_rule list"
  transformers :: "transformer list"
  field_translations :: "(string \<times> tval) list"
  field_value_masks :: "(string \<times> string list) list"

subsection \<open>The rule engine\<close>

text \<open>
  \<^verbatim>\<open>_record_matches_conditions\<close>: the \<^verbatim>\<open>for\<close> loop breaks at the first condition
  whose field is absent or whose pattern does not match; its \<^verbatim>\<open>else\<close> branch, taken
  when the loop ran to its end, returns \<^verbatim>\<open>True\<close>.
\<close>

fun record_matches_conditions :: "(pyval \<Rightarrow> string) \<Rightarrow> pydict \<Rightarrow> conditions \<Rightarrow> bool" where
  "record_matches_conditions str_of record [] = True"
| "record_matches_conditions str_of record ((field, pattern) # rest) =
     (case dict_get record field of
        None \<Rightarrow> False
      | Some v \<Rightarrow>
          if \<not> pattern (str_of v) then False
          else record_matches_conditions str_of record rest)"

text \<open>\<^verbatim>\<open>_should_be_hidden\<close>: the first hiding rule that matches returns \<^verbatim>\<open>True\<close>.\<close>

fun any_rule_matches :: "(pyval \<Rightarrow> string) \<Rightarrow> pydict \<Rightarrow> conditions list \<Rightarrow> bool" where
  "any_rule_matches str_of record [] = False"
| "any_rule_matches str_of record (conds # rules) =
     (if record_matches_conditions str_of record conds then True
      else any_rule_matches str_of record rules)"

definition should_be_hidden :: "(pyval \<Rightarrow> string) \<Rightarrow> 'w job \<Rightarrow> pydict \<Rightarrow> bool" where
  "should_be_hidden str_of job record = any_rule_matches str_of record (hiding_rules job)"

text \<open>
  \<^verbatim>\<open>_substitute\<close>: every rule whose conditions match the record as it is when the
  rule is reached writes its substitutes into the record, in the order of the list.
  The substitutes are (feature, value) pairs; the record is changed in place in the
  source, and the changed record is the result here.
\<close>

fun apply_substitutes :: "(string \<times> pyval) list \<Rightarrow> pydict \<Rightarrow> pydict" where
  "apply_substitutes [] record = record"
| "apply_substitutes ((feature, v) # rest) record =
     apply_substitutes rest (dict_set feature v record)"

fun substitute_rules :: "(pyval \<Rightarrow> string) \<Rightarrow> substitution_rule list \<Rightarrow> pydict \<Rightarrow> pydict" where
  "substitute_rules str_of [] record = record"
| "substitute_rules str_of (rule # rules) record =
     (if record_matches_conditions str_of record (conditions rule)
      then substitute_rules str_of rules (apply_substitutes (substitutes rule) record)
      else substitute_rules str_of rules record)"

definition substitute :: "(pyval \<Rightarrow> string) \<Rightarrow> 'w job \<Rightarrow> pydict \<Rightarrow> pydict" where
  "substitute str_of job record = substitute_rules str_of (substitution_rules job) record"

subsection \<open>The record splitter\<close>

text \<open>
  \<^verbatim>\<open>for record_key in dual_record[agent]\<close>: a dictionary yields its keys, a string
  its characters, anything else raises \<^verbatim>\<open>TypeError\<close>.
\<close>

definition agent_keys :: "store \<Rightarrow> pyval \<Rightarrow> error + string list" where
  "agent_keys st sub =
     (case sub of
        PRef a \<Rightarrow> (case deref st a of Inl e \<Rightarrow> Inl e | Inr d \<Rightarrow> Inr (map fst d))
      | PStr s \<Rightarrow> Inr (map (\<lambda>c. [c]) s)
      | _ \<Rightarrow> Inl TypeError)"

text \<open>\<^verbatim>\<open>dual_record[agent][record_key]\<close>; a string indexed by a string raises.\<close>

definition agent_value :: "store \<Rightarrow> pyval \<Rightarrow> string \<Rightarrow> error + pyval" where
  "agent_value st sub record_key =
     (case sub of
        PRef a \<Rightarrow>
          (case deref st a of
             Inl e \<Rightarrow> Inl e
           | Inr d \<Rightarrow> (case dict_get d record_key of None \<Rightarrow> Inl KeyError | Some v \<Rightarrow> Inr v))
      | _ \<Rightarrow> Inl TypeError)"

text \<open>\<^verbatim>\<open>agent_translation_table[record_key]\<close>.\<close>

definition table_get :: "tval \<Rightarrow> string \<Rightarrow> error + string" where
  "table_get agent_translation_table record_key =
     (case agent_translation_table of
        TTable t \<Rightarrow> (case dict_get t record_key of None \<Rightarrow> Inl KeyError | Some n \<Rightarrow> Inr n)
      | TName s \<Rightarrow> Inl TypeError)"

text \<open>
  The dictionary comprehension of \<^verbatim>\<open>_get_agent_record\<close>: for every key, the
  translated name is computed first, then the value.
\<close>

fun translate_agent ::
  "tval \<Rightarrow> (string \<Rightarrow> error + pyval) \<Rightarrow> string list \<Rightarrow> pydict \<Rightarrow> error + pydict" where
  "translate_agent agent_translation_table getv [] record = Inr record"
| "translate_agent agent_translation_table getv (record_key # keys) record =
     (case table_get agent_translation_table record_key of
        Inl e \<Rightarrow> Inl e
      | Inr new_name \<Rightarrow>
          (case getv record_key of
             Inl e \<Rightarrow> Inl e
           | Inr v \<Rightarrow>
               translate_agent agent_translation_table getv keys (dict_set new_name v record)))"

text \<open>
  The loop over \<^verbatim>\<open>dual_record.items()\<close>: every top-level field other than the two
  agents is copied under its translated name. A table as the translation is not
  hashable: \<^verbatim>\<open>TypeError\<close>.
\<close>

fun translate_shared :: "(string \<times> tval) list \<Rightarrow> pydict \<Rightarrow> pydict \<Rightarrow> error + pydict" where
  "translate_shared translation_table [] record = Inr record"
| "translate_shared translation_table ((record_key, record_value) # items) record =
     (if record_key \<notin> set [''client'', ''producer''] then
        (case dict_get translation_table record_key of
           None \<Rightarrow> Inl KeyError
         | Some (TTable t) \<Rightarrow> Inl TypeError
         | Some (TName new_name) \<Rightarrow>
             translate_shared translation_table items (dict_set new_name record_value record))
      else translate_shared translation_table items record)"

text \<open>\<^verbatim>\<open>for masked_field in agent_field_value_mask: record[masked_field] = None\<close>.\<close>

fun mask_fields :: "string list \<Rightarrow> pydict \<Rightarrow> pydict" where
  "mask_fields [] record = record"
| "mask_fields (masked_field # rest) record = mask_fields rest (dict_set masked_field PNone record)"

text \<open>
  \<^verbatim>\<open>_get_agent_record\<close>. The dual record is the object at address \<open>d\<close>.
  \<open>agent_record_content\<close> is the content the new dictionary has when the function
  returns; \<open>get_agent_record\<close> makes it a new object of the store and returns its
  address.
\<close>

definition agent_record_content :: "'w job \<Rightarrow> store \<Rightarrow> string \<Rightarrow> addr \<Rightarrow> error + pydict" where
  "agent_record_content job st agent d =
     (case deref st d of
        Inl e \<Rightarrow> Inl e
      | Inr dual_record \<Rightarrow>
     (case dict_get (field_translations job) agent of
        None \<Rightarrow> Inl KeyError
      | Some agent_translation_table \<Rightarrow>
     (case dict_get dual_record agent of
        None \<Rightarrow> Inl KeyError
      | Some sub \<Rightarrow>
     (case agent_keys st sub of
        Inl e \<Rightarrow> Inl e
      | Inr keys \<Rightarrow>
     (case translate_agent agent_translation_table (agent_value st sub) keys [] of
        Inl e \<Rightarrow> Inl e
      | Inr record0 \<Rightarrow>
     (case translate_shared (field_translations job) dual_record record0 of
        Inl e \<Rightarrow> Inl e
      | Inr record1 \<Rightarrow>
     (case dict_get (field_value_masks job) agent of
        None \<Rightarrow> Inl KeyError
      | Some agent_field_value_mask \<Rightarrow>
          Inr (mask_fields agent_field_value_mask record1))))))))"

definition get_agent_record :: "'w job \<Rightarrow> store \<Rightarrow> string \<Rightarrow> addr \<Rightarrow> error + (addr \<times> store)" where
  "get_agent_record job st agent d =
     (case agent_record_content job st agent d of
        Inl e \<Rightarrow> Inl e
      | Inr record \<Rightarrow> Inr (alloc st record))"

text \<open>\<^verbatim>\<open>_get_records\<close>: the client's record first, then the producer's.\<close>

definition get_records :: "'w job \<Rightarrow> store \<Rightarrow> addr \<Rightarrow> error + (addr list \<times> store)" where
  "get_records job st d =
     (case deref st d of
        Inl e \<Rightarrow> Inl e
      | Inr dual_record \<Rightarrow>
     (case (if dict_get dual_record ''client'' \<noteq> None then
              (case get_agent_record job st ''client'' d of
                 Inl e \<Rightarrow> Inl e
               | Inr (r, st1) \<Rightarrow> Inr ([r], st1))
            else Inr ([], st)) of
        Inl e \<Rightarrow> Inl e
      | Inr (records, st1) \<Rightarrow>
          if dict_get dual_record ''producer'' \<noteq> None then
            (case get_agent_record job st1 ''producer'' d of
               Inl e \<Rightarrow> Inl e
             | Inr (r, st2) \<Rightarrow> Inr (records @ [r], st2))
          else Inr (records, st1)))"

subsection \<open>The batch\<close>

text \<open>
  The transformers (\<^verbatim>\<open>opmon_anonymizer/transformers\<close>) are not part of the sources
  at hand. Modelled from the spec: a transformer is a function from one record to one
  record that may raise; here it gives the new content of the record it was given.
\<close>

fun apply_transformers :: "transformer list \<Rightarrow> pydict \<Rightarrow> error + pydict" where
  "apply_transformers [] record = Inr record"
| "apply_transformers (transformer # rest) record =
     (case transformer record of
        Inl e \<Rightarrow> Inl e
      | Inr record' \<Rightarrow> apply_transformers rest record')"

text \<open>
  The inner loop of \<^verbatim>\<open>run\<close> over the records of one dual record: a hidden record is
  skipped; the others are substituted and transformed where they stand in the store
  and appended to \<^verbatim>\<open>processed_records\<close>.
\<close>

fun run_records ::
  "(pyval \<Rightarrow> string) \<Rightarrow> 'w job \<Rightarrow> addr list \<Rightarrow> store \<Rightarrow> addr list \<Rightarrow> error + (addr list \<times> store)" where
  "run_records str_of job [] st processed_records = Inr (processed_records, st)"
| "run_records str_of job (r # records) st processed_records =
     (case deref st r of
        Inl e \<Rightarrow> Inl e
      | Inr record \<Rightarrow>
          if should_be_hidden str_of job record then
            run_records str_of job records st processed_records
          else
            (case apply_transformers (transformers job) (substitute str_of job record) of
               Inl e \<Rightarrow> Inl e
             | Inr record' \<Rightarrow>
                 run_records str_of job records (st[r := record']) (processed_records @ [r])))"

text \<open>The outer loop of \<^verbatim>\<open>run\<close> over the dual records of the batch.\<close>

fun run_dual_records ::
  "(pyval \<Rightarrow> string) \<Rightarrow> 'w job \<Rightarrow> addr list \<Rightarrow> store \<Rightarrow> addr list \<Rightarrow> error + (addr list \<times> store)" where
  "run_dual_records str_of job [] st processed_records = Inr (processed_records, st)"
| "run_dual_records str_of job (d # dual_records) st processed_records =
     (case get_records job st d of
        Inl e \<Rightarrow> Inl e
      | Inr (records, st1) \<Rightarrow>
          (case run_records str_of job records st1 processed_records of
             Inl e \<Rightarrow> Inl e
           | Inr (processed_records', st2) \<Rightarrow>
               run_dual_records str_of job dual_records st2 processed_records'))"

text \<open>
  \<^verbatim>\<open>AnonymizationJob.run\<close>: the processed records are handed to the writer in one
  call. The writer is not part of the sources at hand; it is the parameter
  \<open>writer job\<close>, a sink with a state \<open>w\<close> that receives the contents of the records
  and may raise. An exception of any step is logged and raised again.
\<close>

definition run ::
  "(pyval \<Rightarrow> string) \<Rightarrow> 'w job \<Rightarrow> addr list \<Rightarrow> 'w \<times> store \<Rightarrow> error + ('w \<times> store)" where
  "run str_of job dual_records ws =
     (case run_dual_records str_of job dual_records (snd ws) [] of
        Inl e \<Rightarrow> Inl e
      | Inr (processed_records, st') \<Rightarrow>
          (case writer job (fst ws) (map (\<lambda>r. st' ! r) processed_records) of
             Inl e \<Rightarrow> Inl e
           | Inr w' \<Rightarrow> Inr (w', st')))"

subsection \<open>What a batch emits\<close>

text \<open>
  A store is as Python has it when the references of a dual record lead to objects of
  the store.
\<close>

definition valid_dual :: "store \<Rightarrow> addr \<Rightarrow> bool" where
  "valid_dual st d =
     (d < length st \<and>
      list_all (\<lambda>(k, v). case v of PRef a \<Rightarrow> a < length st | _ \<Rightarrow> True) (st ! d))"

text \<open>
  The record of an agent as section 4.2 of the specification words it: every key of the
  agent's sub-mapping under the name the agent's table gives it, then every shared
  top-level field under the name the shared table gives it, then every field of the
  agent's mask as \<^verbatim>\<open>None\<close>; of two writes to one name the later one stays.
\<close>

definition agent_fields :: "(string \<times> string) list \<Rightarrow> pydict \<Rightarrow> pydict" where
  "agent_fields table sub =
     List.map_filter
       (\<lambda>k. case dict_get table k of
               None \<Rightarrow> None
             | Some new_name \<Rightarrow>
                 (case dict_get sub k of None \<Rightarrow> None | Some v \<Rightarrow> Some (new_name, v)))
       (map fst sub)"

definition shared_fields :: "(string \<times> tval) list \<Rightarrow> pydict \<Rightarrow> pydict" where
  "shared_fields table dual_record =
     List.map_filter
       (\<lambda>(k, v). case dict_get table k of Some (TName new_name) \<Rightarrow> Some (new_name, v) | _ \<Rightarrow> None)
       (filter (\<lambda>(k, v). k \<notin> set [''client'', ''producer'']) dual_record)"

definition spec_agent_record :: "'w job \<Rightarrow> store \<Rightarrow> pydict \<Rightarrow> string \<Rightarrow> string \<Rightarrow> pyval option" where
  "spec_agent_record job st dual_record agent f =
     (let table = (case dict_get (field_translations job) agent of Some (TTable t) \<Rightarrow> t | _ \<Rightarrow> []);
          sub = (case dict_get dual_record agent of
                   Some (PRef a) \<Rightarrow> (if a < length st then st ! a else [])
                 | _ \<Rightarrow> []);
          msk = (case dict_get (field_value_masks job) agent of Some m \<Rightarrow> m | None \<Rightarrow> [])
      in if f \<in> set msk then Some PNone
         else (case dict_get (rev (shared_fields (field_translations job) dual_record)) f of
                 Some v \<Rightarrow> Some v
               | None \<Rightarrow> dict_get (rev (agent_fields table sub)) f))"

text \<open>
  The contents of the records that \<^verbatim>\<open>_get_records\<close> makes of the dual record at \<open>d\<close>,
  that the inner loop of \<^verbatim>\<open>run\<close> appends for a list of record contents, and that \<^verbatim>\<open>run\<close>
  hands to the writer for a batch: the same steps as above with the contents in place
  of the addresses. They serve to compare two runs.
\<close>

definition split_contents :: "'w job \<Rightarrow> store \<Rightarrow> addr \<Rightarrow> error + pydict list" where
  "split_contents job st d =
     (case deref st d of
        Inl e \<Rightarrow> Inl e
      | Inr dual_record \<Rightarrow>
     (case (if dict_get dual_record ''client'' \<noteq> None then
              (case agent_record_content job st ''client'' d of
                 Inl e \<Rightarrow> Inl e
               | Inr record \<Rightarrow> Inr [record])
            else Inr []) of
        Inl e \<Rightarrow> Inl e
      | Inr records \<Rightarrow>
          if dict_get dual_record ''producer'' \<noteq> None then
            (case agent_record_content job st ''producer'' d of
               Inl e \<Rightarrow> Inl e
             | Inr record \<Rightarrow> Inr (records @ [record]))
          else Inr records))"

fun processed_contents :: "(pyval \<Rightarrow> string) \<Rightarrow> 'w job \<Rightarrow> pydict list \<Rightarrow> error + pydict list" where
  "processed_contents str_of job [] = Inr []"
| "processed_contents str_of job (record # records) =
     (if should_be_hidden str_of job record then processed_contents str_of job records
      else
        (case apply_transformers (transformers job) (substitute str_of job record) of
           Inl e \<Rightarrow> Inl e
         | Inr record' \<Rightarrow>
             (case processed_contents str_of job records of
                Inl e \<Rightarrow> Inl e
              | Inr rest \<Rightarrow> Inr (record' # rest))))"

fun batch_contents :: "(pyval \<Rightarrow> string) \<Rightarrow> 'w job \<Rightarrow> store \<Rightarrow> addr list \<Rightarrow> error + pydict list" where
  "batch_contents str_of job st [] = Inr []"
| "batch_contents str_of job st (d # dual_records) =
     (case split_contents job st d of
        Inl e \<Rightarrow> Inl e
      | Inr records \<Rightarrow>
          (case processed_contents str_of job records of
             Inl e \<Rightarrow> Inl e
           | Inr processed \<Rightarrow>
               (case batch_contents str_of job st dual_records of
                  Inl e \<Rightarrow> Inl e
                | Inr rest \<Rightarrow> Inr (processed @ rest))))"

section \<open>The stream driver: \<^verbatim>\<open>Anonymizer.anonymize\<close>\<close>

text \<open>
  The reader is not part of the sources at hand. \<^verbatim>\<open>anonymize\<close> uses its attribute
  \<^verbatim>\<open>last_processed_timestamp\<close>, its generator \<^verbatim>\<open>get_records\<close> and its method
  \<^verbatim>\<open>update_last_processed_timestamp\<close>. The source is the list of what the generator
  has still to yield: each record with the value the reader's cursor takes when the
  record is yielded. The job is the object given to the constructor: \<open>run_job\<close> is its
  method \<^verbatim>\<open>run\<close>, on a job state \<open>'j\<close>, and \<open>Inl\<close> is a raised exception. Of a log call
  the level and the tag are kept, not the text.
\<close>

datatype level = Info | Error

record ('ts, 'j) driver =
  last_processed_timestamp :: 'ts
  job_state :: 'j
  log :: "(level \<times> string) list"

datatype outcome = Returned int | Raised error

text \<open>
  The result of a run: how it ended, the state it left, and the records the generator
  had not yielded when the run ended.
\<close>

type_synonym ('r, 'ts, 'j) result = "outcome \<times> ('ts, 'j) driver \<times> ('r \<times> 'ts) list"

text \<open>Lines 88 to 92, after the loop: the rest of the buffer is run outside any \<^verbatim>\<open>try\<close>.\<close>

definition run_remaining ::
  "('j \<Rightarrow> 'r list \<Rightarrow> error + 'j) \<Rightarrow> 'r list \<Rightarrow> int \<Rightarrow> ('ts, 'j) driver \<Rightarrow> ('r \<times> 'ts) list
     \<Rightarrow> ('r, 'ts, 'j) result" where
  "run_remaining run_job record_buffer processed_count s unread =
     (if record_buffer \<noteq> [] then
        (case run_job (job_state s) record_buffer of
           Inl e \<Rightarrow> (Raised e, s, unread)
         | Inr j \<Rightarrow>
             (Returned (processed_count + int (length record_buffer)), s\<lparr>job_state := j\<rparr>, unread))
      else (Returned processed_count, s, unread))"

text \<open>
  Lines 53 to 86, the \<^verbatim>\<open>for\<close> loop. The generator yields the next record, which sets
  the reader's cursor, before the body looks at the limit.
\<close>

fun anonymize_loop ::
  "('j \<Rightarrow> 'r list \<Rightarrow> error + 'j) \<Rightarrow> int \<Rightarrow> int option \<Rightarrow> ('r \<times> 'ts) list \<Rightarrow> 'r list
     \<Rightarrow> 'ts option \<Rightarrow> 'ts \<Rightarrow> int \<Rightarrow> ('ts, 'j) driver \<Rightarrow> ('r, 'ts, 'j) result" where
  "anonymize_loop run_job writer_buffer_size log_limit [] record_buffer
     batch_start last_successful processed_count s =
     run_remaining run_job record_buffer processed_count s []"
| "anonymize_loop run_job writer_buffer_size log_limit ((record, ts) # source) record_buffer
     batch_start last_successful processed_count s =
     (let s1 = s\<lparr>last_processed_timestamp := ts\<rparr> in
      if (case log_limit of None \<Rightarrow> False | Some l \<Rightarrow> processed_count \<ge> l) then
        run_remaining run_job record_buffer processed_count s1 source
      else
        let batch_start1 =
              (case batch_start of None \<Rightarrow> Some (last_processed_timestamp s1) | Some b \<Rightarrow> Some b);
            record_buffer1 = record_buffer @ [record]
        in
          if int (length record_buffer1) \<ge> writer_buffer_size then
            (let batch_end = last_processed_timestamp s1 in
             case run_job (job_state s1) record_buffer1 of
               Inl e \<Rightarrow>
                 (Returned processed_count,
                  s1\<lparr>last_processed_timestamp := last_successful,
                     log := log s1 @ [(Error, ''failed_anonymizing_record_batch'')]\<rparr>,
                  source)
             | Inr j \<Rightarrow>
                 anonymize_loop run_job writer_buffer_size log_limit source [] None batch_end
                   (processed_count + int (length record_buffer1))
                   (s1\<lparr>job_state := j, log := log s1 @ [(Info, ''record_batch_anonymized'')]\<rparr>))
          else
            anonymize_loop run_job writer_buffer_size log_limit source record_buffer1
              batch_start1 last_successful processed_count s1)"

definition anonymize ::
  "('j \<Rightarrow> 'r list \<Rightarrow> error + 'j) \<Rightarrow> int \<Rightarrow> int option \<Rightarrow> ('r \<times> 'ts) list \<Rightarrow> ('ts, 'j) driver
     \<Rightarrow> ('r, 'ts, 'j) result" where
  "anonymize run_job writer_buffer_size log_limit source s =
     anonymize_loop run_job writer_buffer_size log_limit source [] None
       (last_processed_timestamp s) 0 s"

section \<open>The rule compiler\<close>

subsection \<open>Strings\<close>

text \<open>
  A character is a code point below 256. \<^verbatim>\<open>str.strip()\<close> removes the white space of
  both ends: the code points 9 to 13, 28 to 32, 133 and 160.
\<close>

definition is_space :: "char \<Rightarrow> bool" where
  "is_space c = ((of_char c :: nat) \<in> set [9, 10, 11, 12, 13, 28, 29, 30, 31, 32, 133, 160])"

definition strip :: "string \<Rightarrow> string" where
  "strip s = rev (dropWhile is_space (rev (dropWhile is_space s)))"

text \<open>
  \<^verbatim>\<open>str.split(sep)\<close> for a separator that is not empty: the pieces between the
  occurrences of the separator, found from the left. \<open>cur\<close> is the piece being read.
\<close>

function split_from :: "string \<Rightarrow> string \<Rightarrow> string \<Rightarrow> string list" where
  "split_from sep cur [] = [cur]"
| "split_from sep cur (c # s) =
     (if sep \<noteq> [] \<and> take (length sep) (c # s) = sep
      then cur # split_from sep [] (drop (length sep) (c # s))
      else split_from sep (cur @ [c]) s)"
  by pat_completeness auto
termination
  by (relation "measure (\<lambda>(sep, cur, s). length s)") auto

definition split :: "string \<Rightarrow> string \<Rightarrow> string list" where
  "split s sep = split_from sep [] s"

subsection \<open>\<^verbatim>\<open>_get_field_translations\<close>\<close>

text \<open>
  One line of the translations file. Unpacking the pieces into two names raises
  \<^verbatim>\<open>ValueError\<close> unless there are exactly two. A name of one part is stored at the
  top level, a name of two parts in the table of its first part; there is no branch
  for more parts.
\<close>

definition add_translation :: "(string \<times> tval) list \<Rightarrow> string \<Rightarrow> error + (string \<times> tval) list" where
  "add_translation translations line =
     (case split (strip line) '' -> '' of
        [original_name, new_name] \<Rightarrow>
          (let original_name_parts = split original_name ''.'' in
           if length original_name_parts = 1 then
             Inr (dict_set (original_name_parts ! 0) (TName new_name) translations)
           else if length original_name_parts = 2 then
             (case dict_get translations (original_name_parts ! 0) of
                None \<Rightarrow> Inl KeyError
              | Some (TName n) \<Rightarrow> Inl TypeError
              | Some (TTable t) \<Rightarrow>
                  Inr (dict_set (original_name_parts ! 0)
                         (TTable (dict_set (original_name_parts ! 1) new_name t)) translations))
           else Inr translations)
      | _ \<Rightarrow> Inl ValueError)"

fun add_translations :: "(string \<times> tval) list \<Rightarrow> string list \<Rightarrow> error + (string \<times> tval) list" where
  "add_translations translations [] = Inr translations"
| "add_translations translations (line # lines) =
     (case add_translation translations line of
        Inl e \<Rightarrow> Inl e
      | Inr translations' \<Rightarrow> add_translations translations' lines)"

text \<open>The file is the list of its lines, each with its line end.\<close>

definition get_field_translations :: "string list \<Rightarrow> error + (string \<times> tval) list" where
  "get_field_translations field_translations_file =
     add_translations [(''client'', TTable []), (''producer'', TTable [])] field_translations_file"

subsection \<open>\<^verbatim>\<open>_get_field_value_masks\<close>\<close>

text \<open>
  The input is the value of \<^verbatim>\<open>yaml.safe_load(file)['fields'].items()\<close>: the field names
  with their data, a dictionary each. A mask is a set; adding to it is \<open>List.insert\<close>.
\<close>

definition add_mask ::
  "(string \<times> string list) list \<Rightarrow> string \<times> pydict \<Rightarrow> error + (string \<times> string list) list" where
  "add_mask masks item =
     (case item of (field_name, field_data) \<Rightarrow>
        if dict_get field_data ''agent'' \<noteq> None then
          (let masked_agent =
                 (if dict_get field_data ''agent'' = Some (PStr ''producer'')
                  then ''client'' else ''producer'')
           in case dict_get masks masked_agent of
                None \<Rightarrow> Inl KeyError
              | Some m \<Rightarrow> Inr (dict_set masked_agent (List.insert field_name m) masks))
        else Inr masks)"

fun add_masks ::
  "(string \<times> string list) list \<Rightarrow> (string \<times> pydict) list \<Rightarrow> error + (string \<times> string list) list" where
  "add_masks masks [] = Inr masks"
| "add_masks masks (item # items) =
     (case add_mask masks item of
        Inl e \<Rightarrow> Inl e
      | Inr masks' \<Rightarrow> add_masks masks' items)"

definition get_field_value_masks :: "(string \<times> pydict) list \<Rightarrow> error + (string \<times> string list) list" where
  "get_field_value_masks field_items = add_masks [(''client'', []), (''producer'', [])] field_items"

section \<open>Examples\<close>

text \<open>
  Python's \<^verbatim>\<open>str\<close> on the values of the model: \<^verbatim>\<open>None\<close>, the bools, an int in decimal,
  a string as it is. The text of a dictionary is the parameter \<open>dict_str\<close>.
\<close>

function string_of_nat :: "nat \<Rightarrow> string" where
  "string_of_nat n =
     (if n < 10 then [''0123456789'' ! n]
      else string_of_nat (n div 10) @ [''0123456789'' ! (n mod 10)])"
  by pat_completeness auto
termination
  by (relation "measure id") auto

declare string_of_nat.simps [simp del]

definition string_of_int :: "int \<Rightarrow> string" where
  "string_of_int i = (if i < 0 then CHR ''-'' # string_of_nat (nat (- i)) else string_of_nat (nat i))"

definition py_str :: "(addr \<Rightarrow> string) \<Rightarrow> pyval \<Rightarrow> string" where
  "py_str dict_str v =
     (case v of
        PNone \<Rightarrow> ''None''
      | PBool b \<Rightarrow> (if b then ''True'' else ''False'')
      | PInt i \<Rightarrow> string_of_int i
      | PStr s \<Rightarrow> s
      | PRef a \<Rightarrow> dict_str a)"

text \<open>\<^verbatim>\<open>re.compile('^1$').match\<close>: the string is \<^verbatim>\<open>1\<close>, or \<^verbatim>\<open>1\<close> and a line feed.\<close>

definition pattern_one :: pattern where
  "pattern_one s = (s = ''1'' \<or> s = ''1'' @ [CHR 0x0A])"

text \<open>\<^verbatim>\<open>re.compile('').match\<close> matches every string.\<close>

definition pattern_any :: pattern where
  "pattern_any s = True"

text \<open>
  The scenario of the specification: the dual record
  \<^verbatim>\<open>{"client": {"a": "1"}, "producer": {"a": "2"}, "ts": 100}\<close> at address 0, with the
  translations \<^verbatim>\<open>client.a -> fieldA\<close>, \<^verbatim>\<open>producer.a -> fieldA\<close> and \<^verbatim>\<open>ts -> ts\<close>.
  The job has no transformers; its writer keeps the batches it is given.
\<close>

definition example_store :: store where
  "example_store =
     [[(''client'', PRef 1), (''producer'', PRef 2), (''ts'', PInt 100)],
      [(''a'', PStr ''1'')],
      [(''a'', PStr ''2'')]]"

definition example_translations :: "(string \<times> tval) list" where
  "example_translations =
     [(''client'', TTable [(''a'', ''fieldA'')]),
      (''producer'', TTable [(''a'', ''fieldA'')]),
      (''ts'', TName ''ts'')]"

definition example_job ::
  "conditions list \<Rightarrow> substitution_rule list \<Rightarrow> (string \<times> string list) list
     \<Rightarrow> pydict list list job" where
  "example_job hiding substitution masks =
     \<lparr>writer = (\<lambda>w records. Inr (w @ [records])), hiding_rules = hiding, substitution_rules = substitution,
      transformers = [], field_translations = example_translations,
      field_value_masks = masks\<rparr>"

text \<open>A job whose \<^verbatim>\<open>run\<close> raises at its call number \<open>k\<close>, counted from 0.\<close>

definition fails_on_call :: "nat \<Rightarrow> nat \<Rightarrow> 'r list \<Rightarrow> error + nat" where
  "fails_on_call k j batch = (if j = k then Inl OtherError else Inr (Suc j))"

text \<open>A reader whose cursor is 0 before the run, with a job that has not run yet.\<close>

definition start :: "(nat, nat) driver" where
  "start = \<lparr>last_processed_timestamp = 0, job_state = 0, log = []\<rparr>"

section \<open>Properties\<close>

subsection \<open>Dictionaries\<close>

lemma dict_get_map_of: "dict_get d k = map_of d k"
  by (induction d) auto

lemma dict_get_dict_set: "dict_get (dict_set k v d) k' = (if k' = k then Some v else dict_get d k')"
  by (induction d) auto

lemma dict_get_append:
  "dict_get (xs @ ys) k = (case dict_get xs k of None \<Rightarrow> dict_get ys k | Some v \<Rightarrow> Some v)"
  by (induction xs) auto

subsection \<open>Hiding\<close>

lemma record_matches_conditions_iff:
  "record_matches_conditions str_of record conds \<longleftrightarrow>
     (\<forall>(field, pattern) \<in> set conds.
        \<exists>v. dict_get record field = Some v \<and> pattern (str_of v))"
  by (induction conds) (auto split: option.splits if_splits)

lemma any_rule_matches_iff:
  "any_rule_matches str_of record rules \<longleftrightarrow>
     (\<exists>conds \<in> set rules. record_matches_conditions str_of record conds)"
  by (induction rules) auto

text \<open>
  Claim C3. A record is hidden if and only if some hiding rule has every one of its
  (field, pattern) conditions satisfied: the field is in the record and the pattern
  matches the string of its value. A record that lacks a field listed by a condition
  list does not match that list, whatever its other fields are. A hidden record is
  dropped: the loop of \<^verbatim>\<open>run\<close> goes on with the next record, with the processed records
  and the store as they were, and raises nothing.
\<close>

theorem hidden_iff_some_rule_satisfied:
  "(should_be_hidden str_of job record \<longleftrightarrow>
      (\<exists>conds \<in> set (hiding_rules job).
         \<forall>(field, pattern) \<in> set conds.
           \<exists>v. dict_get record field = Some v \<and> pattern (str_of v)))
   \<and> ((f, p) \<in> set conds' \<and> dict_get record f = None \<longrightarrow>
        \<not> record_matches_conditions str_of record conds')
   \<and> (deref st r = Inr record \<and> should_be_hidden str_of job record \<longrightarrow>
        run_records str_of job (r # records) st processed =
        run_records str_of job records st processed)"
proof (intro conjI)
  show "should_be_hidden str_of job record \<longleftrightarrow>
      (\<exists>conds \<in> set (hiding_rules job).
         \<forall>(field, pattern) \<in> set conds.
           \<exists>v. dict_get record field = Some v \<and> pattern (str_of v))"
    by (simp add: should_be_hidden_def any_rule_matches_iff record_matches_conditions_iff)
  show "(f, p) \<in> set conds' \<and> dict_get record f = None \<longrightarrow>
        \<not> record_matches_conditions str_of record conds'"
    by (auto simp: record_matches_conditions_iff intro!: bexI [of _ "(f, p)"])
  show "deref st r = Inr record \<and> should_be_hidden str_of job record \<longrightarrow>
        run_records str_of job (r # records) st processed =
        run_records str_of job records st processed"
    by simp
qed

text \<open>
  The scenario of the specification, hiding rule \<^verbatim>\<open>[{"feature": "fieldA", "regex": "^1$"}]\<close>:
  the client's record is hidden and dropped, the producer's record is kept, and a record
  without \<^verbatim>\<open>fieldA\<close> does not match.
\<close>

theorem hidden_iff_some_rule_satisfied_witness:
  "should_be_hidden (py_str (\<lambda>a. [])) (example_job [[(''fieldA'', pattern_one)]] [] [])
     [(''fieldA'', PStr ''1''), (''ts'', PInt 100)]
   \<and> \<not> should_be_hidden (py_str (\<lambda>a. [])) (example_job [[(''fieldA'', pattern_one)]] [] [])
     [(''fieldA'', PStr ''2''), (''ts'', PInt 100)]
   \<and> (''fieldA'', pattern_one) \<in> set [(''ts'', pattern_any), (''fieldA'', pattern_one)]
   \<and> dict_get [(''ts'', PInt 100)] ''fieldA'' = None
   \<and> \<not> record_matches_conditions (py_str (\<lambda>a. [])) [(''ts'', PInt 100)]
         [(''ts'', pattern_any), (''fieldA'', pattern_one)]
   \<and> run_records (py_str (\<lambda>a. [])) (example_job [[(''fieldA'', pattern_one)]] [] []) [0, 1]
       [[(''fieldA'', PStr ''1''), (''ts'', PInt 100)], [(''fieldA'', PStr ''2''), (''ts'', PInt 100)]] []
     = Inr ([1],
       [[(''fieldA'', PStr ''1''), (''ts'', PInt 100)], [(''fieldA'', PStr ''2''), (''ts'', PInt 100)]])"
  using hidden_iff_some_rule_satisfied
      [of "py_str (\<lambda>a. [])" "example_job [[(''fieldA'', pattern_one)]] [] []"
          "[(''fieldA'', PStr ''1''), (''ts'', PInt 100)]" "''fieldA''" pattern_one "[]"
          "[[(''fieldA'', PStr ''1''), (''ts'', PInt 100)], [(''fieldA'', PStr ''2''), (''ts'', PInt 100)]]"
          0 "[1]" "[]"]
    hidden_iff_some_rule_satisfied
      [of "py_str (\<lambda>a. [])" "example_job [[(''fieldA'', pattern_one)]] [] []"
          "[(''ts'', PInt 100)]" "''fieldA''" pattern_one
          "[(''ts'', pattern_any), (''fieldA'', pattern_one)]"]
  by (simp add: example_job_def should_be_hidden_def py_str_def pattern_one_def pattern_any_def
        deref_def substitute_def)

subsection \<open>Substitution\<close>

lemma dict_get_apply_substitutes:
  "dict_get (apply_substitutes subs record) f =
     (case dict_get (rev subs) f of Some v \<Rightarrow> Some v | None \<Rightarrow> dict_get record f)"
  by (induction subs arbitrary: "record")
     (auto simp: dict_get_dict_set dict_get_append split: option.splits)

lemma apply_substitutes_other:
  "f \<notin> fst ` set subs \<Longrightarrow> dict_get (apply_substitutes subs record) f = dict_get record f"
  by (induction subs arbitrary: "record") (auto simp: dict_get_dict_set)

lemma substitute_rules_append:
  "substitute_rules str_of (rs1 @ rs2) record =
     substitute_rules str_of rs2 (substitute_rules str_of rs1 record)"
  by (induction rs1 arbitrary: "record") auto

lemma substitute_rules_keeps:
  "dict_get record f = Some v \<Longrightarrow>
   (\<forall>i < length rules. f \<in> fst ` set (substitutes (rules ! i)) \<longrightarrow>
        \<not> record_matches_conditions str_of (substitute_rules str_of (take i rules) record)
            (conditions (rules ! i))) \<Longrightarrow>
   dict_get (substitute_rules str_of rules record) f = Some v"
proof (induction rules arbitrary: "record")
  case Nil
  then show ?case by simp
next
  case (Cons rule rules)
  let ?record' = "if record_matches_conditions str_of record (conditions rule)
                  then apply_substitutes (substitutes rule) record else record"
  have step: "substitute_rules str_of (rule # rules') record = substitute_rules str_of rules' ?record'" for rules'
    by simp
  have "f \<in> fst ` set (substitutes rule) \<longrightarrow>
          \<not> record_matches_conditions str_of record (conditions rule)"
    using Cons.prems(2) by force
  then have get: "dict_get ?record' f = Some v"
    using Cons.prems(1) by (auto simp: apply_substitutes_other)
  have later: "\<forall>i < length rules. f \<in> fst ` set (substitutes (rules ! i)) \<longrightarrow>
        \<not> record_matches_conditions str_of (substitute_rules str_of (take i rules) ?record')
            (conditions (rules ! i))"
  proof (intro allI impI)
    fix i assume i: "i < length rules" and f: "f \<in> fst ` set (substitutes (rules ! i))"
    have "Suc i < length (rule # rules)" using i by simp
    moreover have "f \<in> fst ` set (substitutes ((rule # rules) ! Suc i))" using f by simp
    ultimately have "\<not> record_matches_conditions str_of
        (substitute_rules str_of (take (Suc i) (rule # rules)) record)
        (conditions ((rule # rules) ! Suc i))"
      using Cons.prems(2) by blast
    then show "\<not> record_matches_conditions str_of (substitute_rules str_of (take i rules) ?record')
            (conditions (rules ! i))"
      by (simp split: if_splits)
  qed
  show ?case
    unfolding step using Cons.IH [OF get later] .
qed

text \<open>
  Claim C4. The substitution rules are gone through in the order of their declaration,
  each on the record as the rules before it left it. When \<open>rule\<close> matches at its turn
  and its substitutes give the field \<open>f\<close> the value \<open>v\<close> (the last value, when it lists
  \<open>f\<close> twice), and no rule declared after it both lists \<open>f\<close> and matches at its own
  turn, then the field \<open>f\<close> of the result is \<open>v\<close>: among the matching rules that target
  a field, the last one declared gives the final value.
\<close>

theorem later_substitution_wins:
  assumes "substitution_rules job = before @ rule # after"
    and "record_matches_conditions str_of (substitute_rules str_of before record) (conditions rule)"
    and "dict_get (rev (substitutes rule)) f = Some v"
    and "\<forall>i < length after. f \<in> fst ` set (substitutes (after ! i)) \<longrightarrow>
           \<not> record_matches_conditions str_of
               (substitute_rules str_of (before @ rule # take i after) record)
               (conditions (after ! i))"
  shows "dict_get (substitute str_of job record) f = Some v"
proof -
  let ?r0 = "substitute_rules str_of before record"
  let ?r1 = "apply_substitutes (substitutes rule) ?r0"
  have unfold: "substitute_rules str_of (before @ rule # rules') record =
                substitute_rules str_of rules' ?r1" for rules'
    using assms(2) by (simp add: substitute_rules_append)
  have "dict_get ?r1 f = Some v"
    using assms(3) by (simp add: dict_get_apply_substitutes)
  moreover have "\<forall>i < length after. f \<in> fst ` set (substitutes (after ! i)) \<longrightarrow>
        \<not> record_matches_conditions str_of (substitute_rules str_of (take i after) ?r1)
            (conditions (after ! i))"
    using assms(4) unfolding unfold .
  ultimately have "dict_get (substitute_rules str_of after ?r1) f = Some v"
    by (rule substitute_rules_keeps)
  then show ?thesis
    by (simp add: substitute_def assms(1) unfold)
qed

text \<open>
  Two rules that both match and both write \<^verbatim>\<open>x\<close>: the value of the second one stays,
  and the field \<^verbatim>\<open>y\<close>, written by the first rule only, keeps the first rule's value.
\<close>

theorem later_substitution_wins_witness:
  "dict_get (substitute (py_str (\<lambda>a. []))
       (example_job []
          [\<lparr>conditions = [(''fieldA'', pattern_one)],
            substitutes = [(''x'', PStr ''first''), (''y'', PInt 1)]\<rparr>,
           \<lparr>conditions = [(''y'', pattern_one)], substitutes = [(''x'', PStr ''second'')]\<rparr>] [])
       [(''fieldA'', PStr ''1'')]) ''x'' = Some (PStr ''second'')
   \<and> substitute (py_str (\<lambda>a. []))
       (example_job []
          [\<lparr>conditions = [(''fieldA'', pattern_one)],
            substitutes = [(''x'', PStr ''first''), (''y'', PInt 1)]\<rparr>,
           \<lparr>conditions = [(''y'', pattern_one)], substitutes = [(''x'', PStr ''second'')]\<rparr>] [])
       [(''fieldA'', PStr ''1'')]
     = [(''fieldA'', PStr ''1''), (''x'', PStr ''second''), (''y'', PInt 1)]"
proof -
  let ?first = "\<lparr>conditions = [(''fieldA'', pattern_one)],
                  substitutes = [(''x'', PStr ''first''), (''y'', PInt 1)]\<rparr>"
  let ?second = "\<lparr>conditions = [(''y'', pattern_one)], substitutes = [(''x'', PStr ''second'')]\<rparr>"
  let ?job = "example_job [] [?first, ?second] []"
  let ?str = "py_str (\<lambda>a. [])"
  have rules: "substitution_rules ?job = [?first] @ ?second # []"
    by (simp add: example_job_def)
  have matches: "record_matches_conditions ?str
      (substitute_rules ?str [?first] [(''fieldA'', PStr ''1'')]) (conditions ?second)"
    by (simp add: py_str_def pattern_one_def string_of_int_def string_of_nat.simps)
  have target: "dict_get (rev (substitutes ?second)) ''x'' = Some (PStr ''second'')"
    by simp
  have none_later: "\<forall>i < length ([] :: substitution_rule list).
      ''x'' \<in> fst ` set (substitutes ([] ! i)) \<longrightarrow>
      \<not> record_matches_conditions ?str
          (substitute_rules ?str ([?first] @ ?second # take i []) [(''fieldA'', PStr ''1'')])
          (conditions ([] ! i))"
    by simp
  have "dict_get (substitute ?str ?job [(''fieldA'', PStr ''1'')]) ''x'' = Some (PStr ''second'')"
    using later_substitution_wins [OF rules matches target none_later] .
  moreover have "substitute ?str ?job [(''fieldA'', PStr ''1'')]
      = [(''fieldA'', PStr ''1''), (''x'', PStr ''second''), (''y'', PInt 1)]"
    by (simp add: substitute_def example_job_def py_str_def pattern_one_def string_of_int_def
          string_of_nat.simps)
  ultimately show ?thesis by blast
qed

subsection \<open>Masks\<close>

lemma mask_fields_keeps_none:
  "dict_get record m = Some PNone \<Longrightarrow> dict_get (mask_fields msk record) m = Some PNone"
  by (induction msk arbitrary: "record") (auto simp: dict_get_dict_set)

lemma mask_fields_masks:
  "m \<in> set msk \<Longrightarrow> dict_get (mask_fields msk record) m = Some PNone"
  by (induction msk arbitrary: "record") (auto simp: dict_get_dict_set mask_fields_keeps_none)

text \<open>
  Claim C5. In every record that \<^verbatim>\<open>_get_agent_record\<close> returns for an agent, every field
  of that agent's mask set is present with the value \<^verbatim>\<open>None\<close>, whether the field was in
  the record before the masking or not.
\<close>

theorem masked_fields_are_null:
  assumes "get_agent_record job st agent d = Inr (r, st')"
    and "dict_get (field_value_masks job) agent = Some msk"
    and "m \<in> set msk"
  shows "\<exists>record. deref st' r = Inr record \<and> dict_get record m = Some PNone"
  using assms
  by (auto simp: get_agent_record_def agent_record_content_def alloc_def deref_def mask_fields_masks
           split: sum.splits option.splits)

text \<open>
  The scenario of the specification with the client's mask \<^verbatim>\<open>{"fieldA", "extra"}\<close>:
  \<^verbatim>\<open>fieldA\<close> is nulled, and \<^verbatim>\<open>extra\<close>, which no source field gives, is there and null.
\<close>

theorem masked_fields_are_null_witness:
  "get_agent_record (example_job [] [] [(''client'', [''fieldA'', ''extra'']), (''producer'', [])])
     example_store ''client'' 0
     = Inr (3, example_store @ [[(''fieldA'', PNone), (''ts'', PInt 100), (''extra'', PNone)]])
   \<and> dict_get (field_value_masks
        (example_job [] [] [(''client'', [''fieldA'', ''extra'']), (''producer'', [])])) ''client''
     = Some [''fieldA'', ''extra'']
   \<and> ''extra'' \<in> set [''fieldA'', ''extra'']
   \<and> (\<exists>record.
        deref (example_store @ [[(''fieldA'', PNone), (''ts'', PInt 100), (''extra'', PNone)]]) 3
          = Inr record
        \<and> dict_get record ''extra'' = Some PNone)"
proof -
  let ?job = "example_job [] [] [(''client'', [''fieldA'', ''extra'']), (''producer'', [])]"
  let ?st' = "example_store @ [[(''fieldA'', PNone), (''ts'', PInt 100), (''extra'', PNone)]]"
  have r: "get_agent_record ?job example_store ''client'' 0 = Inr (3, ?st')"
    by (simp add: get_agent_record_def agent_record_content_def example_job_def example_store_def
          example_translations_def deref_def agent_keys_def agent_value_def table_get_def alloc_def)
  have m: "dict_get (field_value_masks ?job) ''client'' = Some [''fieldA'', ''extra'']"
    by (simp add: example_job_def)
  have e: "''extra'' \<in> set [''fieldA'', ''extra'']"
    by simp
  show ?thesis
    using masked_fields_are_null [OF r m e] r m e by blast
qed

subsection \<open>The splitter\<close>

text \<open>
  A record is made from the dual record and the sub-mapping of the agent alone: objects
  added to the store do not change it.
\<close>

lemma dict_get_Some_mem: "dict_get d k = Some v \<Longrightarrow> (k, v) \<in> set d"
  by (induction d) (auto split: if_splits)

lemma valid_dual_ref:
  "valid_dual st d \<Longrightarrow> dict_get (st ! d) k = Some (PRef a) \<Longrightarrow> a < length st"
  by (auto simp: valid_dual_def list_all_iff dest!: dict_get_Some_mem)

lemma valid_dual_append: "valid_dual st d \<Longrightarrow> valid_dual (st @ ext) d"
  by (auto simp: valid_dual_def list_all_iff nth_append split: pyval.splits)

lemma deref_append: "a < length st \<Longrightarrow> deref (st @ ext) a = deref st a"
  by (simp add: deref_def nth_append)

lemma agent_keys_append:
  "(\<And>a. sub = PRef a \<Longrightarrow> a < length st) \<Longrightarrow> agent_keys (st @ ext) sub = agent_keys st sub"
  by (cases sub) (simp_all add: agent_keys_def deref_append)

lemma agent_value_append:
  "(\<And>a. sub = PRef a \<Longrightarrow> a < length st) \<Longrightarrow> agent_value (st @ ext) sub = agent_value st sub"
  by (cases sub) (auto simp: agent_value_def deref_append fun_eq_iff)

lemma agent_record_content_append:
  assumes "valid_dual st d"
  shows "agent_record_content job (st @ ext) agent d = agent_record_content job st agent d"
proof -
  have d: "d < length st" using assms by (simp add: valid_dual_def)
  have deref: "deref (st @ ext) d = Inr (st ! d)" "deref st d = Inr (st ! d)"
    using d by (simp_all add: deref_def nth_append)
  show ?thesis
  proof (cases "dict_get (st ! d) agent")
    case None
    then show ?thesis
      by (simp add: agent_record_content_def deref split: option.splits)
  next
    case (Some sub)
    have r: "\<And>a. sub = PRef a \<Longrightarrow> a < length st"
      using valid_dual_ref [OF assms, of agent] Some by simp
    have "agent_keys (st @ ext) sub = agent_keys st sub"
      by (rule agent_keys_append) (rule r)
    moreover have "agent_value (st @ ext) sub = agent_value st sub"
      by (rule agent_value_append) (rule r)
    ultimately show ?thesis
      by (simp add: agent_record_content_def deref Some cong: option.case_cong sum.case_cong)
  qed
qed

lemma split_contents_append:
  assumes "valid_dual st d"
  shows "split_contents job (st @ ext) d = split_contents job st d"
proof -
  have d: "d < length st" using assms by (simp add: valid_dual_def)
  have deref: "deref (st @ ext) d = Inr (st ! d)" "deref st d = Inr (st ! d)"
    using d by (simp_all add: deref_def nth_append)
  show ?thesis
    by (simp add: split_contents_def agent_record_content_append [OF assms] deref
          cong: sum.case_cong if_cong)
qed

lemma get_records_contents:
  assumes "valid_dual st d"
  shows "get_records job st d =
     (case split_contents job st d of
        Inl e \<Rightarrow> Inl e
      | Inr records \<Rightarrow> Inr ([length st ..< length st + length records], st @ records))"
proof -
  have d: "deref st d = Inr (st ! d)"
    using assms by (simp add: valid_dual_def deref_def)
  have p: "agent_record_content job (st @ [rcd]) ''producer'' d =
        agent_record_content job st ''producer'' d" for rcd
    using assms by (rule agent_record_content_append)
  show ?thesis
  proof (cases "dict_get (st ! d) ''client'' \<noteq> None")
    case True
    show ?thesis
    proof (cases "agent_record_content job st ''client'' d")
      case (Inl e)
      then show ?thesis
        using True by (simp add: get_records_def split_contents_def get_agent_record_def d)
    next
      case (Inr rc)
      then show ?thesis
        using True
        by (cases "agent_record_content job st ''producer'' d")
           (simp_all add: get_records_def split_contents_def get_agent_record_def d alloc_def p
              upt_rec)
    qed
  next
    case False
    then show ?thesis
      by (cases "agent_record_content job st ''producer'' d")
         (simp_all add: get_records_def split_contents_def get_agent_record_def d alloc_def upt_rec)
  qed
qed

text \<open>
  The content of a record, field by field: the writes of the comprehension, of the loop
  over the shared fields and of the masking, the later write to a name staying.
\<close>

lemma dict_get_mask_fields:
  "dict_get (mask_fields msk rcd) f = (if f \<in> set msk then Some PNone else dict_get rcd f)"
proof (induction msk arbitrary: rcd)
  case Nil
  then show ?case by simp
next
  case (Cons m msk)
  then show ?case by (simp add: dict_get_dict_set)
qed

lemma dict_get_translate_agent:
  "translate_agent tbl getv keys acc = Inr rcd \<Longrightarrow>
   dict_get rcd f =
     (case dict_get (rev (List.map_filter
             (\<lambda>k. case table_get tbl k of Inl e \<Rightarrow> None
                   | Inr n \<Rightarrow> (case getv k of Inl e \<Rightarrow> None | Inr v \<Rightarrow> Some (n, v))) keys)) f of
        Some v \<Rightarrow> Some v
      | None \<Rightarrow> dict_get acc f)"
proof (induction keys arbitrary: acc)
  case Nil
  then show ?case by (simp add: List.map_filter_simps)
next
  case (Cons k keys)
  from Cons.prems obtain n v where
    n: "table_get tbl k = Inr n" and v: "getv k = Inr v" and
    rest: "translate_agent tbl getv keys (dict_set n v acc) = Inr rcd"
    by (auto split: sum.splits)
  show ?case
    using Cons.IH [OF rest]
    by (simp add: List.map_filter_simps n v dict_get_append dict_get_dict_set split: option.splits)
qed

lemma dict_get_translate_shared:
  "translate_shared tbl items acc = Inr rcd \<Longrightarrow>
   dict_get rcd f =
     (case dict_get (rev (shared_fields tbl items)) f of
        Some v \<Rightarrow> Some v
      | None \<Rightarrow> dict_get acc f)"
proof (induction items arbitrary: acc)
  case Nil
  then show ?case by (simp add: shared_fields_def List.map_filter_simps)
next
  case (Cons item items)
  obtain k v where item: "item = (k, v)" by (cases item)
  show ?case
  proof (cases "k \<notin> set [''client'', ''producer'']")
    case True
    from Cons.prems True obtain n where
      n: "dict_get tbl k = Some (TName n)" and
      rest: "translate_shared tbl items (dict_set n v acc) = Inr rcd"
      by (auto simp: item split: option.splits tval.splits)
    have sf: "shared_fields tbl (item # items) = (n, v) # shared_fields tbl items"
      using True n by (simp add: shared_fields_def item List.map_filter_simps)
    show ?thesis
      using Cons.IH [OF rest]
      by (simp add: sf dict_get_append dict_get_dict_set split: option.splits)
  next
    case False
    then have rest: "translate_shared tbl items acc = Inr rcd"
      using Cons.prems by (simp add: item)
    have sf: "shared_fields tbl (item # items) = shared_fields tbl items"
      using False by (auto simp: shared_fields_def item)
    show ?thesis
      using Cons.IH [OF rest] by (simp add: sf)
  qed
qed

lemma agent_writes_fields:
  assumes "agent_keys st sub = Inr keys"
    and "translate_agent tbl (agent_value st sub) keys [] = Inr rcd"
  shows "List.map_filter
             (\<lambda>k. case table_get tbl k of Inl e \<Rightarrow> None
                   | Inr n \<Rightarrow> (case agent_value st sub k of Inl e \<Rightarrow> None | Inr v \<Rightarrow> Some (n, v))) keys
         = agent_fields (case tbl of TTable t \<Rightarrow> t | _ \<Rightarrow> [])
             (case sub of PRef a \<Rightarrow> (if a < length st then st ! a else []) | _ \<Rightarrow> [])"
proof (cases keys)
  case Nil
  then have "(case sub of PRef a \<Rightarrow> (if a < length st then st ! a else []) | _ \<Rightarrow> []) = []"
    using assms(1) by (auto simp: agent_keys_def deref_def split: pyval.splits if_splits)
  then show ?thesis
    by (simp add: Nil agent_fields_def List.map_filter_simps)
next
  case (Cons k keys')
  obtain t where t: "tbl = TTable t"
    using assms(2) Cons by (cases tbl) (auto simp: table_get_def)
  obtain a where a: "sub = PRef a" "a < length st" "keys = map fst (st ! a)"
    using assms Cons t
    by (cases sub) (auto simp: agent_keys_def agent_value_def deref_def table_get_def
          split: sum.splits if_splits option.splits)
  have "(\<lambda>k. case table_get tbl k of Inl e \<Rightarrow> None
            | Inr n \<Rightarrow> (case agent_value st sub k of Inl e \<Rightarrow> None | Inr v \<Rightarrow> Some (n, v)))
        = (\<lambda>k. case dict_get t k of None \<Rightarrow> None
            | Some new_name \<Rightarrow> (case dict_get (st ! a) k of None \<Rightarrow> None | Some v \<Rightarrow> Some (new_name, v)))"
    by (auto simp: fun_eq_iff t a table_get_def agent_value_def deref_def split: option.splits)
  then show ?thesis
    by (simp add: agent_fields_def t a)
qed

lemma agent_record_content_spec:
  assumes "agent_record_content job st agent d = Inr rcd"
    and "deref st d = Inr dual_record"
  shows "dict_get rcd = spec_agent_record job st dual_record agent"
proof -
  from assms obtain tbl sub keys record0 record1 msk where
    tbl: "dict_get (field_translations job) agent = Some tbl" and
    sub: "dict_get dual_record agent = Some sub" and
    keys: "agent_keys st sub = Inr keys" and
    r0: "translate_agent tbl (agent_value st sub) keys [] = Inr record0" and
    r1: "translate_shared (field_translations job) dual_record record0 = Inr record1" and
    msk: "dict_get (field_value_masks job) agent = Some msk" and
    rcd: "rcd = mask_fields msk record1"
    by (auto simp: agent_record_content_def split: sum.splits option.splits)
  have a: "dict_get record0 f =
      dict_get (rev (agent_fields (case tbl of TTable t \<Rightarrow> t | _ \<Rightarrow> [])
             (case sub of PRef a \<Rightarrow> (if a < length st then st ! a else []) | _ \<Rightarrow> []))) f" for f
    using dict_get_translate_agent [OF r0, of f] agent_writes_fields [OF keys r0]
    by (simp split: option.splits)
  have "dict_get rcd f = spec_agent_record job st dual_record agent f" for f
    unfolding rcd dict_get_mask_fields dict_get_translate_shared [OF r1] a
    by (simp add: spec_agent_record_def tbl sub msk Let_def)
  then show ?thesis by (simp add: fun_eq_iff)
qed

lemma map_nth_append_upt:
  "map ((!) (st @ recs)) [length st ..< length st + length recs] = recs"
  by (rule nth_equalityI) (simp_all add: nth_append)

lemma split_contents_spec:
  assumes "valid_dual st d" and "split_contents job st d = Inr recs"
  shows "map dict_get recs =
           map (spec_agent_record job st (st ! d))
             (filter (\<lambda>agent. dict_get (st ! d) agent \<noteq> None) [''client'', ''producer''])"
proof -
  have d: "deref st d = Inr (st ! d)"
    using assms(1) by (simp add: valid_dual_def deref_def)
  have spec: "agent_record_content job st agent d = Inr rcd \<Longrightarrow>
              dict_get rcd = spec_agent_record job st (st ! d) agent" for agent rcd
    using agent_record_content_spec [OF _ d] .
  show ?thesis
  proof (cases "dict_get (st ! d) ''client'' \<noteq> None")
    case True
    then obtain rc where rc: "agent_record_content job st ''client'' d = Inr rc"
      using assms(2) by (cases "agent_record_content job st ''client'' d")
        (simp_all add: split_contents_def d)
    show ?thesis
    proof (cases "dict_get (st ! d) ''producer'' \<noteq> None")
      case p: True
      then obtain rp where rp: "agent_record_content job st ''producer'' d = Inr rp"
        using assms(2) True rc by (cases "agent_record_content job st ''producer'' d")
          (simp_all add: split_contents_def d)
      have "recs = [rc, rp]"
        using assms(2) True p rc rp by (simp add: split_contents_def d)
      then show ?thesis
        using True p spec [OF rc] spec [OF rp] by simp
    next
      case p: False
      have "recs = [rc]"
        using assms(2) True p rc by (simp add: split_contents_def d)
      then show ?thesis
        using True p spec [OF rc] by simp
    qed
  next
    case False
    show ?thesis
    proof (cases "dict_get (st ! d) ''producer'' \<noteq> None")
      case p: True
      then obtain rp where rp: "agent_record_content job st ''producer'' d = Inr rp"
        using assms(2) False by (cases "agent_record_content job st ''producer'' d")
          (simp_all add: split_contents_def d)
      have "recs = [rp]"
        using assms(2) False p rp by (simp add: split_contents_def d)
      then show ?thesis
        using False p spec [OF rp] by simp
    next
      case p: False
      have "recs = []"
        using assms(2) False p by (simp add: split_contents_def d)
      then show ?thesis
        using False p by simp
    qed
  qed
qed

lemma get_records_splits_general:
  assumes "get_records job st d = Inr (records, st')" and "valid_dual st d"
  shows "length records \<le> 2 \<and>
      map (\<lambda>r. dict_get (st' ! r)) records =
        map (spec_agent_record job st (st ! d))
          (filter (\<lambda>agent. dict_get (st ! d) agent \<noteq> None) [''client'', ''producer''])"
proof -
  from assms obtain recs where
    recs: "split_contents job st d = Inr recs" and
    records: "records = [length st ..< length st + length recs]" and
    st': "st' = st @ recs"
    by (auto simp: get_records_contents split: sum.splits)
  have "map (\<lambda>r. dict_get (st' ! r)) records = map dict_get (map ((!) st') records)"
    by simp
  also have "\<dots> = map dict_get recs"
    unfolding records st' map_nth_append_upt ..
  finally have m: "map (\<lambda>r. dict_get (st' ! r)) records =
        map (spec_agent_record job st (st ! d))
          (filter (\<lambda>agent. dict_get (st ! d) agent \<noteq> None) [''client'', ''producer''])"
    using split_contents_spec [OF assms(2) recs] by simp
  have "length records = length (filter (\<lambda>agent. dict_get (st ! d) agent \<noteq> None) [''client'', ''producer''])"
    using arg_cong [OF m, of length] by simp
  also have "\<dots> \<le> length [''client'', ''producer'']"
    by (rule length_filter_le)
  finally show ?thesis using m by simp
qed

text \<open>
  Claim C6. Splitting the dual record at \<open>d\<close> gives at most two records: one for each of
  the keys \<^verbatim>\<open>client\<close> and \<^verbatim>\<open>producer\<close> that the dual record has, the client's first.
  Each record holds the keys of the agent's sub-mapping under the names of that agent's
  translation table and every shared top-level field under the name of the shared
  table (and the agent's mask fields as \<^verbatim>\<open>None\<close>), as \<open>spec_agent_record\<close> words it.
  On the scenario of the specification the records are \<^verbatim>\<open>{"fieldA": "1", "ts": 100}\<close>
  and then \<^verbatim>\<open>{"fieldA": "2", "ts": 100}\<close>.
\<close>

theorem get_records_splits:
  "(get_records job st d = Inr (records, st') \<and> valid_dual st d \<longrightarrow>
      length records \<le> 2 \<and>
      map (\<lambda>r. dict_get (st' ! r)) records =
        map (spec_agent_record job st (st ! d))
          (filter (\<lambda>agent. dict_get (st ! d) agent \<noteq> None) [''client'', ''producer'']))
   \<and> get_records (example_job [] [] [(''client'', []), (''producer'', [])]) example_store 0
       = Inr ([3, 4],
           example_store @
             [[(''fieldA'', PStr ''1''), (''ts'', PInt 100)],
              [(''fieldA'', PStr ''2''), (''ts'', PInt 100)]])"
proof (intro conjI impI)
  assume a: "get_records job st d = Inr (records, st') \<and> valid_dual st d"
  then have g: "get_records job st d = Inr (records, st')" and v: "valid_dual st d"
    by simp_all
  show "length records \<le> 2"
    using get_records_splits_general [OF g v] by simp
  show "map (\<lambda>r. dict_get (st' ! r)) records =
        map (spec_agent_record job st (st ! d))
          (filter (\<lambda>agent. dict_get (st ! d) agent \<noteq> None) [''client'', ''producer''])"
    using get_records_splits_general [OF g v] by simp
next
  show "get_records (example_job [] [] [(''client'', []), (''producer'', [])]) example_store 0
       = Inr ([3, 4],
           example_store @
             [[(''fieldA'', PStr ''1''), (''ts'', PInt 100)],
              [(''fieldA'', PStr ''2''), (''ts'', PInt 100)]])"
    by (simp add: get_records_def get_agent_record_def agent_record_content_def example_job_def
          example_store_def example_translations_def deref_def agent_keys_def agent_value_def
          table_get_def alloc_def)
qed


text \<open>
  A dual record with a producer only, and the producer's mask \<^verbatim>\<open>{"fieldB"}\<close>: one
  record, the producer's.
\<close>

theorem get_records_splits_witness:
  "get_records (example_job [] [] [(''client'', []), (''producer'', [''fieldB''])])
       [[(''producer'', PRef 1), (''ts'', PInt 100)], [(''a'', PStr ''2'')]] 0
     = Inr ([2],
         [[(''producer'', PRef 1), (''ts'', PInt 100)], [(''a'', PStr ''2'')],
          [(''fieldA'', PStr ''2''), (''ts'', PInt 100), (''fieldB'', PNone)]])
   \<and> valid_dual [[(''producer'', PRef 1), (''ts'', PInt 100)], [(''a'', PStr ''2'')]] 0
   \<and> length [2 :: nat] \<le> 2
   \<and> [dict_get [(''fieldA'', PStr ''2''), (''ts'', PInt 100), (''fieldB'', PNone)]]
     = [spec_agent_record (example_job [] [] [(''client'', []), (''producer'', [''fieldB''])])
          [[(''producer'', PRef 1), (''ts'', PInt 100)], [(''a'', PStr ''2'')]]
          [(''producer'', PRef 1), (''ts'', PInt 100)] ''producer'']
   \<and> spec_agent_record (example_job [] [] [(''client'', []), (''producer'', [''fieldB''])])
          [[(''producer'', PRef 1), (''ts'', PInt 100)], [(''a'', PStr ''2'')]]
          [(''producer'', PRef 1), (''ts'', PInt 100)] ''producer'' ''fieldA'' = Some (PStr ''2'')"
proof -
  let ?job = "example_job [] [] [(''client'', []), (''producer'', [''fieldB''])]"
  let ?st = "[[(''producer'', PRef 1), (''ts'', PInt 100)], [(''a'', PStr ''2'')]]"
  let ?st' = "[[(''producer'', PRef 1), (''ts'', PInt 100)], [(''a'', PStr ''2'')],
          [(''fieldA'', PStr ''2''), (''ts'', PInt 100), (''fieldB'', PNone)]]"
  have g: "get_records ?job ?st 0 = Inr ([2], ?st')"
    by (simp add: get_records_def get_agent_record_def agent_record_content_def example_job_def
          example_translations_def deref_def agent_keys_def agent_value_def table_get_def alloc_def)
  have v: "valid_dual ?st 0"
    by (simp add: valid_dual_def)
  have s: "spec_agent_record ?job ?st [(''producer'', PRef 1), (''ts'', PInt 100)] ''producer''
             ''fieldA'' = Some (PStr ''2'')"
    by (simp add: spec_agent_record_def example_job_def example_translations_def agent_fields_def
          shared_fields_def List.map_filter_simps)
  show ?thesis
    using get_records_splits [of ?job ?st 0 "[2]" ?st'] g v s by simp
qed


subsection \<open>Two runs of a batch\<close>

text \<open>
  The two \<^verbatim>\<open>for\<close> statements of \<^verbatim>\<open>run\<close> write to the records they were given and to no other object,
  and what they append is what \<open>processed_contents\<close> and \<open>batch_contents\<close> compute from
  the contents.
\<close>

lemma run_records_contents:
  "distinct rs \<Longrightarrow> \<forall>r\<in>set rs. r < length st \<Longrightarrow>
   (case run_records str_of job rs st acc of
      Inl e \<Rightarrow> processed_contents str_of job (map ((!) st) rs) = Inl e
    | Inr (out, st') \<Rightarrow>
        length st' = length st \<and> (\<forall>a. a \<notin> set rs \<longrightarrow> st' ! a = st ! a) \<and>
        (\<exists>kept. out = acc @ kept \<and> set kept \<subseteq> set rs \<and>
           processed_contents str_of job (map ((!) st) rs) = Inr (map ((!) st') kept)))"
proof (induction rs arbitrary: st acc)
  case Nil
  then show ?case by simp
next
  case (Cons r rs)
  have r: "deref st r = Inr (st ! r)"
    using Cons.prems(2) by (simp add: deref_def)
  have d: "distinct rs" and nr: "r \<notin> set rs" and v: "\<forall>r'\<in>set rs. r' < length st"
    using Cons.prems by simp_all
  show ?case
  proof (cases "should_be_hidden str_of job (st ! r)")
    case True
    have run: "run_records str_of job (r # rs) st acc = run_records str_of job rs st acc"
      using True r by simp
    have pc: "processed_contents str_of job (map ((!) st) (r # rs)) =
              processed_contents str_of job (map ((!) st) rs)"
      using True by simp
    show ?thesis
      unfolding run pc using Cons.IH [OF d v, of acc]
      by (auto split: sum.splits)
  next
    case False
    show ?thesis
    proof (cases "apply_transformers (transformers job) (substitute str_of job (st ! r))")
      case (Inl e)
      then show ?thesis using False r by simp
    next
      case (Inr rcd)
      let ?st1 = "st[r := rcd]"
      have run: "run_records str_of job (r # rs) st acc = run_records str_of job rs ?st1 (acc @ [r])"
        using False r Inr by simp
      have same: "map ((!) ?st1) rs = map ((!) st) rs"
        using nr by (auto intro!: nth_list_update_neq)
      have pc: "processed_contents str_of job (map ((!) st) (r # rs)) =
              (case processed_contents str_of job (map ((!) ?st1) rs) of
                 Inl e \<Rightarrow> Inl e | Inr rest \<Rightarrow> Inr (rcd # rest))"
        using False Inr by (simp add: same)
      have v1: "\<forall>r'\<in>set rs. r' < length ?st1"
        using v by simp
      show ?thesis
      proof (cases "run_records str_of job rs ?st1 (acc @ [r])")
        case e: (Inl e)
        then show ?thesis
          unfolding run pc using Cons.IH [OF d v1, of "acc @ [r]"] by simp
      next
        case ok: (Inr res)
        obtain out st' where res: "res = (out, st')" by (cases res)
        from Cons.IH [OF d v1, of "acc @ [r]"] ok res obtain kept where
          len: "length st' = length ?st1" and
          frame: "\<forall>a. a \<notin> set rs \<longrightarrow> st' ! a = ?st1 ! a" and
          out: "out = (acc @ [r]) @ kept" and
          kept: "set kept \<subseteq> set rs" and
          pcs: "processed_contents str_of job (map ((!) ?st1) rs) = Inr (map ((!) st') kept)"
          by auto
        have at_r: "st' ! r = rcd"
          using frame nr Cons.prems(2) by simp
        have "out = acc @ (r # kept)" using out by simp
        moreover have "set (r # kept) \<subseteq> set (r # rs)" using kept by auto
        moreover have "processed_contents str_of job (map ((!) st) (r # rs)) =
              Inr (map ((!) st') (r # kept))"
          unfolding pc pcs using at_r by simp
        moreover have "\<forall>a. a \<notin> set (r # rs) \<longrightarrow> st' ! a = st ! a"
          using frame by simp
        moreover have "length st' = length st" using len by simp
        ultimately show ?thesis
          unfolding run ok res by (simp del: processed_contents.simps; blast?)
      qed
    qed
  qed
qed

lemma run_dual_records_contents:
  "\<forall>d\<in>set ds. valid_dual st0 d \<Longrightarrow> \<forall>a\<in>set acc. a < length (st0 @ ext) \<Longrightarrow>
   (case run_dual_records str_of job ds (st0 @ ext) acc of
      Inl e \<Rightarrow> batch_contents str_of job st0 ds = Inl e
    | Inr (out, st') \<Rightarrow>
        (\<exists>ext' new. st' = st0 @ ext' \<and> length (st0 @ ext) \<le> length st' \<and> out = acc @ new \<and>
           (\<forall>a\<in>set new. a < length st') \<and>
           map ((!) st') acc = map ((!) (st0 @ ext)) acc \<and>
           batch_contents str_of job st0 ds = Inr (map ((!) st') new)))"
proof (induction ds arbitrary: ext acc)
  case Nil
  then show ?case by simp
next
  case (Cons d ds)
  let ?s = "st0 @ ext"
  have vd: "valid_dual st0 d" and vds: "\<forall>d\<in>set ds. valid_dual st0 d"
    using Cons.prems(1) by simp_all
  have vs: "valid_dual ?s d" using vd by (rule valid_dual_append)
  have sc: "split_contents job ?s d = split_contents job st0 d"
    using vd by (rule split_contents_append)
  show ?case
  proof (cases "split_contents job st0 d")
    case (Inl e)
    then show ?thesis
      by (simp add: get_records_contents [OF vs] sc)
  next
    case (Inr recs)
    let ?rs = "[length ?s ..< length ?s + length recs]"
    let ?s1 = "?s @ recs"
    have gr: "get_records job ?s d = Inr (?rs, ?s1)"
      by (simp add: get_records_contents [OF vs] sc Inr)
    have dist: "distinct ?rs" by simp
    have valid: "\<forall>r\<in>set ?rs. r < length ?s1" by simp
    have contents: "map ((!) ?s1) ?rs = recs"
      by (rule map_nth_append_upt)
    show ?thesis
    proof (cases "run_records str_of job ?rs ?s1 acc")
      case e: (Inl e)
      then have "processed_contents str_of job recs = Inl e"
        using run_records_contents [OF dist valid, of str_of job acc] contents by simp
      then show ?thesis
        using gr e Inr by simp
    next
      case ok: (Inr res)
      obtain out1 s2 where res: "res = (out1, s2)" by (cases res)
      from run_records_contents [OF dist valid, of str_of job acc] ok res contents obtain kept where
        len: "length s2 = length ?s1" and
        frame: "\<forall>a. a \<notin> set ?rs \<longrightarrow> s2 ! a = ?s1 ! a" and
        out1: "out1 = acc @ kept" and
        kept: "set kept \<subseteq> set ?rs" and
        pcs: "processed_contents str_of job recs = Inr (map ((!) s2) kept)"
        by auto
      have below: "s2 ! a = ?s ! a" if "a < length ?s" for a
      proof -
        have "a \<notin> set ?rs" using that by simp
        then have "s2 ! a = ?s1 ! a" using frame by blast
        also have "\<dots> = ?s ! a" using that by (simp add: nth_append del: append_assoc)
        finally show ?thesis .
      qed
      have "take (length st0) s2 = st0"
        by (rule nth_equalityI) (use len below in \<open>simp_all add: nth_append\<close>)
      then have s2: "s2 = st0 @ drop (length st0) s2"
        by (metis append_take_drop_id)
      define ext2 where "ext2 = drop (length st0) s2"
      have s2': "s2 = st0 @ ext2" using s2 ext2_def by simp
      have acc1: "\<forall>a\<in>set out1. a < length (st0 @ ext2)"
        using Cons.prems(2) kept len unfolding out1 s2' [symmetric] by auto
      have run: "run_dual_records str_of job (d # ds) ?s acc =
                 run_dual_records str_of job ds (st0 @ ext2) out1"
        using gr ok res s2' by simp
      have acc_same: "map ((!) s2) acc = map ((!) ?s) acc"
        using Cons.prems(2) below by simp
      show ?thesis
      proof (cases "run_dual_records str_of job ds (st0 @ ext2) out1")
        case e2: (Inl e)
        then have "batch_contents str_of job st0 ds = Inl e"
          using Cons.IH [OF vds acc1] by simp
        then show ?thesis
          unfolding run e2 using Inr pcs by simp
      next
        case ok2: (Inr res2)
        obtain out st' where res2: "res2 = (out, st')" by (cases res2)
        from Cons.IH [OF vds acc1] ok2 res2 obtain ext' new where
          st': "st' = st0 @ ext'" and
          le: "length (st0 @ ext2) \<le> length st'" and
          out: "out = out1 @ new" and
          new: "\<forall>a\<in>set new. a < length st'" and
          same: "map ((!) st') out1 = map ((!) (st0 @ ext2)) out1" and
          bc: "batch_contents str_of job st0 ds = Inr (map ((!) st') new)"
          by auto
        have k: "map ((!) st') kept = map ((!) s2) kept"
          and a: "map ((!) st') acc = map ((!) s2) acc"
          using same unfolding out1 s2' [symmetric] by simp_all
        have "out = acc @ (kept @ new)" using out out1 by simp
        moreover have "\<forall>a\<in>set (kept @ new). a < length st'"
          using new kept len le unfolding s2' [symmetric] by auto
        moreover have "map ((!) st') acc = map ((!) ?s) acc"
          using a acc_same by simp
        moreover have "batch_contents str_of job st0 (d # ds) = Inr (map ((!) st') (kept @ new))"
          using Inr pcs bc k by simp
        moreover have "length ?s \<le> length st'"
          using le len unfolding s2' [symmetric] by simp
        ultimately show ?thesis
          unfolding run ok2 res2 using st' by (simp del: batch_contents.simps; blast?)
      qed
    qed
  qed
qed

text \<open>
  Claim C9. When \<^verbatim>\<open>run\<close> goes through on a batch of dual records, every object that was
  in the store before the run, the dual records and their sub-mappings among them, is
  as it was (the run writes to the records it makes only); and a second run of the same
  batch with the same rules on the store the first run left hands the writer the same
  list of records, in the same order, and again leaves the objects of the first store
  as they were.
\<close>

theorem run_twice_same_batch:
  assumes "run str_of job dual_records (w, st) = Inr (w1, st1)"
    and "\<forall>d\<in>set dual_records. valid_dual st d"
  shows "\<exists>batch st2.
           writer job w batch = Inr w1 \<and>
           take (length st) st1 = st \<and>
           take (length st) st2 = st \<and>
           (\<forall>w'. run str_of job dual_records (w', st1) =
                   (case writer job w' batch of Inl e \<Rightarrow> Inl e | Inr w2 \<Rightarrow> Inr (w2, st2)))"
proof -
  from assms(1) obtain out where
    loop: "run_dual_records str_of job dual_records st [] = Inr (out, st1)" and
    wr: "writer job w (map ((!) st1) out) = Inr w1"
    by (auto simp: run_def split: sum.splits)
  have none: "\<forall>a\<in>set ([] :: addr list). a < length (st @ ext)" for ext
    by simp
  from run_dual_records_contents [OF assms(2) none [of "[]"], where str_of = str_of and job = job] loop obtain ext' where
    st1: "st1 = st @ ext'" and
    bc: "batch_contents str_of job st dual_records = Inr (map ((!) st1) out)"
    by auto
  obtain out2 st2 ext'' where
    loop2: "run_dual_records str_of job dual_records st1 [] = Inr (out2, st2)" and
    st2: "st2 = st @ ext''" and
    same: "map ((!) st2) out2 = map ((!) st1) out"
    using run_dual_records_contents [OF assms(2) none [of ext'], where str_of = str_of and job = job] bc
    unfolding st1 [symmetric]
    by (cases "run_dual_records str_of job dual_records st1 []") auto
  have again: "run str_of job dual_records (w', st1) =
          (case writer job w' (map ((!) st1) out) of Inl e \<Rightarrow> Inl e | Inr w2 \<Rightarrow> Inr (w2, st2))" for w'
    by (simp add: run_def loop2 same)
  show ?thesis
  proof (intro exI conjI allI)
    show "writer job w (map ((!) st1) out) = Inr w1" by (fact wr)
    show "take (length st) st1 = st" by (simp add: st1)
    show "take (length st) st2 = st" by (simp add: st2)
    show "run str_of job dual_records (w', st1) =
          (case writer job w' (map ((!) st1) out) of Inl e \<Rightarrow> Inl e | Inr w2 \<Rightarrow> Inr (w2, st2))" for w'
      by (fact again)
  qed
qed

text \<open>
  The scenario of the specification with a substitution rule that rewrites \<^verbatim>\<open>fieldA\<close> of
  the client's record: both runs hand the same two records to the writer.
\<close>

theorem run_twice_same_batch_witness:
  "run (py_str (\<lambda>a. []))
       (example_job []
          [\<lparr>conditions = [(''fieldA'', pattern_one)], substitutes = [(''fieldA'', PStr ''x'')]\<rparr>]
          [(''client'', []), (''producer'', [])])
       [0] ([], example_store)
     = Inr ([[[(''fieldA'', PStr ''x''), (''ts'', PInt 100)],
              [(''fieldA'', PStr ''2''), (''ts'', PInt 100)]]],
            example_store @
              [[(''fieldA'', PStr ''x''), (''ts'', PInt 100)],
               [(''fieldA'', PStr ''2''), (''ts'', PInt 100)]])
   \<and> valid_dual example_store 0
   \<and> run (py_str (\<lambda>a. []))
       (example_job []
          [\<lparr>conditions = [(''fieldA'', pattern_one)], substitutes = [(''fieldA'', PStr ''x'')]\<rparr>]
          [(''client'', []), (''producer'', [])])
       [0] ([],
            example_store @
              [[(''fieldA'', PStr ''x''), (''ts'', PInt 100)],
               [(''fieldA'', PStr ''2''), (''ts'', PInt 100)]])
     = Inr ([[[(''fieldA'', PStr ''x''), (''ts'', PInt 100)],
              [(''fieldA'', PStr ''2''), (''ts'', PInt 100)]]],
            (example_store @
              [[(''fieldA'', PStr ''x''), (''ts'', PInt 100)],
               [(''fieldA'', PStr ''2''), (''ts'', PInt 100)]]) @
              [[(''fieldA'', PStr ''x''), (''ts'', PInt 100)],
               [(''fieldA'', PStr ''2''), (''ts'', PInt 100)]])
   \<and> (\<exists>batch st2.
        writer (example_job []
          [\<lparr>conditions = [(''fieldA'', pattern_one)], substitutes = [(''fieldA'', PStr ''x'')]\<rparr>]
          [(''client'', []), (''producer'', [])]) [] batch = Inr [batch] \<and>
        take (length example_store) st2 = example_store)"
proof -
  let ?job = "example_job []
          [\<lparr>conditions = [(''fieldA'', pattern_one)], substitutes = [(''fieldA'', PStr ''x'')]\<rparr>]
          [(''client'', []), (''producer'', [])]"
  let ?new = "[[(''fieldA'', PStr ''x''), (''ts'', PInt 100)],
               [(''fieldA'', PStr ''2''), (''ts'', PInt 100)]]"
  have first: "run (py_str (\<lambda>a. [])) ?job [0] ([], example_store)
                 = Inr ([?new], example_store @ ?new)"
    by (simp add: run_def get_records_def get_agent_record_def agent_record_content_def
          example_job_def example_store_def example_translations_def deref_def agent_keys_def
          agent_value_def table_get_def alloc_def should_be_hidden_def substitute_def py_str_def
          pattern_one_def)
  have second: "run (py_str (\<lambda>a. [])) ?job [0] ([], example_store @ ?new)
                 = Inr ([?new], (example_store @ ?new) @ ?new)"
    by (simp add: run_def get_records_def get_agent_record_def agent_record_content_def
          example_job_def example_store_def example_translations_def deref_def agent_keys_def
          agent_value_def table_get_def alloc_def should_be_hidden_def substitute_def py_str_def
          pattern_one_def)
  have v: "\<forall>d\<in>set [0]. valid_dual example_store d"
    by (simp add: valid_dual_def example_store_def)
  from run_twice_same_batch [OF first v] obtain batch st2 where
    "writer ?job [] batch = Inr [?new]" and "take (length example_store) st2 = example_store"
    by blast
  moreover from this(1) have "[?new] = [batch]"
    by (simp add: example_job_def)
  ultimately have "\<exists>batch st2. writer ?job [] batch = Inr [batch] \<and>
        take (length example_store) st2 = example_store"
    by metis
  then show ?thesis
    using first second v by simp
qed

subsection \<open>The compiled masks\<close>

lemma producer_fields_Cons:
  "{f'. \<exists>fd'. (f', fd') \<in> set ((f, fd) # items) \<and> dict_get fd' ''agent'' = Some (PStr ''producer'')} =
     (if dict_get fd ''agent'' = Some (PStr ''producer'') then {f} else {}) \<union>
     {f'. \<exists>fd'. (f', fd') \<in> set items \<and> dict_get fd' ''agent'' = Some (PStr ''producer'')}"
  by auto

lemma other_fields_Cons:
  "{f'. \<exists>fd' v. (f', fd') \<in> set ((f, fd) # items) \<and> dict_get fd' ''agent'' = Some v \<and>
          v \<noteq> PStr ''producer''} =
     (if \<exists>v. dict_get fd ''agent'' = Some v \<and> v \<noteq> PStr ''producer'' then {f} else {}) \<union>
     {f'. \<exists>fd' v. (f', fd') \<in> set items \<and> dict_get fd' ''agent'' = Some v \<and> v \<noteq> PStr ''producer''}"
  by auto

lemma add_mask_cases:
  "add_mask [(''client'', cs), (''producer'', ps)] (f, fd) =
     Inr [(''client'', if dict_get fd ''agent'' = Some (PStr ''producer'') then List.insert f cs else cs),
          (''producer'', if \<exists>v. dict_get fd ''agent'' = Some v \<and> v \<noteq> PStr ''producer''
                         then List.insert f ps else ps)]"
  by (cases "dict_get fd ''agent''") (auto simp: add_mask_def)

lemma add_masks_sets:
  "\<exists>cs' ps'. add_masks [(''client'', cs), (''producer'', ps)] items =
       Inr [(''client'', cs'), (''producer'', ps')] \<and>
     set cs' = set cs \<union>
       {f. \<exists>fd. (f, fd) \<in> set items \<and> dict_get fd ''agent'' = Some (PStr ''producer'')} \<and>
     set ps' = set ps \<union>
       {f. \<exists>fd v. (f, fd) \<in> set items \<and> dict_get fd ''agent'' = Some v \<and> v \<noteq> PStr ''producer''}"
proof (induction items arbitrary: cs ps)
  case Nil
  then show ?case by simp
next
  case (Cons item items)
  obtain f fd where item: "item = (f, fd)" by (cases item)
  let ?cs = "if dict_get fd ''agent'' = Some (PStr ''producer'') then List.insert f cs else cs"
  let ?ps = "if \<exists>v. dict_get fd ''agent'' = Some v \<and> v \<noteq> PStr ''producer''
             then List.insert f ps else ps"
  obtain cs' ps' where
    res: "add_masks [(''client'', ?cs), (''producer'', ?ps)] items =
            Inr [(''client'', cs'), (''producer'', ps')]" and
    cs': "set cs' = set ?cs \<union>
       {f. \<exists>fd. (f, fd) \<in> set items \<and> dict_get fd ''agent'' = Some (PStr ''producer'')}" and
    ps': "set ps' = set ?ps \<union>
       {f. \<exists>fd v. (f, fd) \<in> set items \<and> dict_get fd ''agent'' = Some v \<and> v \<noteq> PStr ''producer''}"
    using Cons.IH [of ?cs ?ps] by blast
  have "add_masks [(''client'', cs), (''producer'', ps)] (item # items) =
          Inr [(''client'', cs'), (''producer'', ps')]"
    using res by (simp add: item add_mask_cases)
  moreover have "set cs' = set cs \<union>
       {f'. \<exists>fd'. (f', fd') \<in> set (item # items) \<and> dict_get fd' ''agent'' = Some (PStr ''producer'')}"
    unfolding item producer_fields_Cons cs' by (auto split: if_splits)
  moreover have "set ps' = set ps \<union>
       {f'. \<exists>fd' v. (f', fd') \<in> set (item # items) \<and> dict_get fd' ''agent'' = Some v \<and>
              v \<noteq> PStr ''producer''}"
    unfolding item other_fields_Cons ps' by (auto split: if_splits)
  ultimately show ?case by blast
qed

lemma distinct_fst_unique:
  "distinct (map fst xs) \<Longrightarrow> (k, a) \<in> set xs \<Longrightarrow> (k, b) \<in> set xs \<Longrightarrow> a = b"
  by (induction xs) (auto simp: rev_image_eqI)

text \<open>
  Claim C10. The compiled masks invert the declared agent: the client's mask is the set
  of the fields whose \<^verbatim>\<open>agent\<close> is \<^verbatim>\<open>'producer'\<close>, the producer's mask is the set of the
  fields with any other \<^verbatim>\<open>agent\<close> value (\<^verbatim>\<open>'client'\<close> among them); a field whose data has
  no \<^verbatim>\<open>agent\<close> key is in neither mask (the field names, being the keys of a dictionary,
  are distinct).
\<close>

theorem masks_invert_agent:
  "\<exists>cs ps. get_field_value_masks field_items = Inr [(''client'', cs), (''producer'', ps)] \<and>
     set cs = {f. \<exists>fd. (f, fd) \<in> set field_items \<and> dict_get fd ''agent'' = Some (PStr ''producer'')} \<and>
     set ps = {f. \<exists>fd v. (f, fd) \<in> set field_items \<and> dict_get fd ''agent'' = Some v \<and>
                  v \<noteq> PStr ''producer''} \<and>
     (distinct (map fst field_items) \<longrightarrow>
        (\<forall>f fd. (f, fd) \<in> set field_items \<and> dict_get fd ''agent'' = None \<longrightarrow>
            f \<notin> set cs \<and> f \<notin> set ps))"
proof -
  obtain cs ps where
    res: "get_field_value_masks field_items = Inr [(''client'', cs), (''producer'', ps)]" and
    cs: "set cs = {f. \<exists>fd. (f, fd) \<in> set field_items \<and> dict_get fd ''agent'' = Some (PStr ''producer'')}" and
    ps: "set ps = {f. \<exists>fd v. (f, fd) \<in> set field_items \<and> dict_get fd ''agent'' = Some v \<and>
                  v \<noteq> PStr ''producer''}"
    using add_masks_sets [of "[]" "[]" field_items] by (auto simp: get_field_value_masks_def)
  have "f \<notin> set cs \<and> f \<notin> set ps"
    if "distinct (map fst field_items)" "(f, fd) \<in> set field_items" "dict_get fd ''agent'' = None"
    for f fd
    using that distinct_fst_unique [OF that(1) that(2)] unfolding cs ps by fastforce
  then show ?thesis
    using res cs ps by blast
qed

theorem masks_invert_agent_witness:
  "get_field_value_masks
     [(''f1'', [(''agent'', PStr ''producer'')]), (''f2'', [(''agent'', PStr ''client'')]),
      (''f3'', [(''type'', PStr ''string'')]), (''f4'', [(''agent'', PNone)])]
     = Inr [(''client'', [''f1'']), (''producer'', [''f4'', ''f2''])]
   \<and> distinct (map fst
       [(''f1'', [(''agent'', PStr ''producer'')]), (''f2'', [(''agent'', PStr ''client'')]),
        (''f3'', [(''type'', PStr ''string'')]), (''f4'', [(''agent'', PNone)])])
   \<and> dict_get [(''type'', PStr ''string'')] ''agent'' = None
   \<and> ''f3'' \<notin> set [''f1''] \<and> ''f3'' \<notin> set [''f4'', ''f2'']"
  using masks_invert_agent
     [of "[(''f1'', [(''agent'', PStr ''producer'')]), (''f2'', [(''agent'', PStr ''client'')]),
           (''f3'', [(''type'', PStr ''string'')]), (''f4'', [(''agent'', PNone)])]"]
  by (simp add: get_field_value_masks_def add_mask_def)

subsection \<open>The compiled translations\<close>

lemma add_translation_bad_line:
  "length (split (strip line) '' -> '') \<noteq> 2 \<Longrightarrow> add_translation tr line = Inl ValueError"
  by (auto simp: add_translation_def split: list.splits)

lemma add_translation_long_name:
  "split (strip line) '' -> '' = [original_name, new_name] \<Longrightarrow>
   length (split original_name ''.'') > 2 \<Longrightarrow>
   add_translation tr line = Inr tr"
  by (simp add: add_translation_def)

lemma add_translations_append:
  "add_translations tr (file1 @ file2) =
     (case add_translations tr file1 of
        Inl e \<Rightarrow> Inl e
      | Inr tr' \<Rightarrow> add_translations tr' file2)"
  by (induction file1 arbitrary: tr) (auto split: sum.splits)

lemma add_translations_bad_line:
  "line \<in> set lns \<Longrightarrow> length (split (strip line) '' -> '') \<noteq> 2 \<Longrightarrow>
   \<exists>e. add_translations tr lns = Inl e"
  by (induction lns arbitrary: tr)
     (auto simp: add_translation_bad_line split: sum.splits)

text \<open>
  The claim C7 as it is stated fails: the line \<^verbatim>\<open>a.b.c -> x\<close>, whose original name has
  three parts, compiles without an error and leaves the table as it was.
\<close>

theorem long_name_compiles_counterexample:
  "split (strip (''a.b.c -> x'' @ [CHR 0x0A])) '' -> '' = [''a.b.c'', ''x'']
   \<and> length (split ''a.b.c'' ''.'') = 3
   \<and> get_field_translations [''a.b.c -> x'' @ [CHR 0x0A]]
       = Inr [(''client'', TTable []), (''producer'', TTable [])]"
  by (simp add: get_field_translations_def add_translation_def split_def strip_def is_space_def)

text \<open>
  Claim C7, amended. Compiling the translations raises whenever a line of the file
  cannot be split into exactly one \<^verbatim>\<open>original -> new\<close> pair; the line itself raises
  \<^verbatim>\<open>ValueError\<close>. A line whose original name has more than two parts raises nothing:
  it leaves the table as it was, and the file compiles to what it compiles to without
  that line.
\<close>

theorem translations_compile_errors:
  "((\<exists>line \<in> set lns. length (split (strip line) '' -> '') \<noteq> 2) \<longrightarrow>
      (\<exists>e. get_field_translations lns = Inl e))
   \<and> (length (split (strip line) '' -> '') \<noteq> 2 \<longrightarrow>
        add_translation tr line = Inl ValueError)
   \<and> (split (strip line) '' -> '' = [original_name, new_name] \<and>
        length (split original_name ''.'') > 2 \<longrightarrow>
        add_translation tr line = Inr tr \<and>
        get_field_translations (file1 @ line # file2) = get_field_translations (file1 @ file2))"
  by (auto simp: get_field_translations_def add_translations_append add_translation_long_name
           add_translation_bad_line add_translations_bad_line split: sum.splits)

theorem translations_compile_errors_witness:
  "''ts'' @ [CHR 0x0A] \<in> set [''client.a -> fieldA'' @ [CHR 0x0A], ''ts'' @ [CHR 0x0A]]
   \<and> length (split (strip (''ts'' @ [CHR 0x0A])) '' -> '') \<noteq> 2
   \<and> get_field_translations [''client.a -> fieldA'' @ [CHR 0x0A], ''ts'' @ [CHR 0x0A]]
       = Inl ValueError
   \<and> split (strip (''a.b.c -> x'' @ [CHR 0x0A])) '' -> '' = [''a.b.c'', ''x'']
   \<and> length (split ''a.b.c'' ''.'') > 2
   \<and> get_field_translations
       [''client.a -> fieldA'' @ [CHR 0x0A], ''a.b.c -> x'' @ [CHR 0x0A], ''ts -> ts'' @ [CHR 0x0A]]
     = get_field_translations [''client.a -> fieldA'' @ [CHR 0x0A], ''ts -> ts'' @ [CHR 0x0A]]
   \<and> get_field_translations [''client.a -> fieldA'' @ [CHR 0x0A], ''ts -> ts'' @ [CHR 0x0A]]
     = Inr [(''client'', TTable [(''a'', ''fieldA'')]), (''producer'', TTable []), (''ts'', TName ''ts'')]"
  using translations_compile_errors
     [of "[''client.a -> fieldA'' @ [CHR 0x0A], ''ts'' @ [CHR 0x0A]]" "''ts'' @ [CHR 0x0A]"]
    translations_compile_errors
     [of "[]" "''a.b.c -> x'' @ [CHR 0x0A]" _ "''a.b.c''" "''x''"
         "[''client.a -> fieldA'' @ [CHR 0x0A]]" "[''ts -> ts'' @ [CHR 0x0A]]"]
  by (simp add: get_field_translations_def add_translation_def split_def strip_def is_space_def)

subsection \<open>The driver\<close>


text \<open>
  The path of a full batch: when \<^verbatim>\<open>run\<close> raises on a buffer that has reached the buffer
  size, the cursor of the reader is set back to the cursor of the last batch that went
  through, and the run returns the count of the records of the batches before.
\<close>

lemma full_batch_failure_rolls_back:
  assumes "\<not> (case log_limit of None \<Rightarrow> False | Some l \<Rightarrow> processed_count \<ge> l)"
    and "int (length (record_buffer @ [record])) \<ge> writer_buffer_size"
    and "run_job (job_state s) (record_buffer @ [record]) = Inl e"
  shows "anonymize_loop run_job writer_buffer_size log_limit ((record, ts) # source) record_buffer
           batch_start last_successful processed_count s =
         (Returned processed_count,
          s\<lparr>last_processed_timestamp := last_successful,
            log := log s @ [(Error, ''failed_anonymizing_record_batch'')]\<rparr>,
          source)"
  using assms by (simp add: Let_def)

text \<open>
  Claim C1. The claim is about every batch and fails on the last, undersized one, which
  is run after the loop outside any \<^verbatim>\<open>try\<close>. The scenario of the specification, three
  records with buffer size 2 and a job that raises on its second batch: the exception
  leaves \<^verbatim>\<open>anonymize\<close>, no count is returned, and the cursor stays at 30, the cursor of
  the third record, and is not set back to 20, the cursor of the batch that was committed.
\<close>

theorem final_batch_failure_scenario:
  "anonymize (fails_on_call 1) 2 None [(''r1'', 10), (''r2'', 20), (''r3'', 30)] start
     = (Raised OtherError,
        \<lparr>last_processed_timestamp = 30, job_state = 1,
         log = [(Info, ''record_batch_anonymized'')]\<rparr>,
        [])"
  by (simp add: anonymize_def run_remaining_def fails_on_call_def start_def)

text \<open>
  Claim C2. A stream of one record with buffer size 2: the only batch is the undersized
  one at the end of the stream. The job raises on it; \<^verbatim>\<open>anonymize\<close> logs nothing, does
  not set the cursor back from 10 to 0, and raises instead of returning the count 0.
\<close>

theorem undersized_batch_failure:
  "anonymize (fails_on_call 0) 2 None [(''r1'', 10)] start
     = (Raised OtherError, \<lparr>last_processed_timestamp = 10, job_state = 0, log = []\<rparr>, [])"
  by (simp add: anonymize_def run_remaining_def fails_on_call_def start_def)

text \<open>
  The same failure on a full batch, the second of five records with buffer size 2, is
  caught: the run returns 2 and the cursor is back at 20.
\<close>

lemma full_batch_failure_scenario:
  "anonymize (fails_on_call 1) 2 None
       [(''r1'', 10), (''r2'', 20), (''r3'', 30), (''r4'', 40), (''r5'', 50)] start
     = (Returned 2,
        \<lparr>last_processed_timestamp = 20, job_state = 1,
         log = [(Info, ''record_batch_anonymized''), (Error, ''failed_anonymizing_record_batch'')]\<rparr>,
        [(''r5'', 50)])"
  by (simp add: anonymize_def run_remaining_def fails_on_call_def start_def)




end
